theory Spec2Isabelle
  imports Main "HOL-Library.Sublist" "HOL-Library.Multiset" "HOL-Library.Product_Lexorder"
begin

section \<open>Text primitives of the Python runtime\<close>

text \<open>
  Python strings are modelled as \<open>string\<close> (a list of 8-bit characters); the model covers
  ASCII text. The four primitives below are the ASCII part of \<open>str.isspace\<close> (which is
  also what the regular expression class \<open>\s\<close> matches), \<open>str.strip\<close>, \<open>str.lower\<close>
  and \<open>str.upper\<close>.
\<close>

definition NL :: char where
  "NL = CHR 0x0A"

definition CR :: char where
  "CR = CHR 0x0D"

definition is_space :: "char \<Rightarrow> bool" where
  "is_space c = (c \<in> set [CHR 0x09, CHR 0x0A, CHR 0x0B, CHR 0x0C, CHR 0x0D,
                            CHR 0x1C, CHR 0x1D, CHR 0x1E, CHR 0x1F, CHR 0x20])"

definition lstrip :: "string \<Rightarrow> string" where
  "lstrip s = dropWhile is_space s"

definition rstrip :: "string \<Rightarrow> string" where
  "rstrip s = rev (dropWhile is_space (rev s))"

definition strip :: "string \<Rightarrow> string" where
  "strip s = rstrip (lstrip s)"

definition lower_char :: "char \<Rightarrow> char" where
  "lower_char c =
     (case map_of (zip ''ABCDEFGHIJKLMNOPQRSTUVWXYZ'' ''abcdefghijklmnopqrstuvwxyz'') c of
        Some d \<Rightarrow> d | None \<Rightarrow> c)"


definition lower :: "string \<Rightarrow> string" where
  "lower s = map lower_char s"


text \<open>\<open>needle in haystack\<close> on strings.\<close>

fun contains :: "string \<Rightarrow> string \<Rightarrow> bool" where
  "contains needle [] = (needle = [])"
| "contains needle (c # cs) = (prefix needle (c # cs) \<or> contains needle cs)"

text \<open>
  \<open>str.splitlines\<close>: the ASCII line boundaries are \<open>\n\<close>, \<open>\r\<close>, \<open>\r\n\<close>, \<open>\v\<close>, \<open>\f\<close>
  and the separators \<open>0x1C\<close>, \<open>0x1D\<close>, \<open>0x1E\<close>; a final boundary opens no empty line.
\<close>

definition is_linebreak :: "char \<Rightarrow> bool" where
  "is_linebreak c = (c \<in> set [CHR 0x0A, CHR 0x0B, CHR 0x0C, CHR 0x0D,
                                CHR 0x1C, CHR 0x1D, CHR 0x1E])"

fun splitlines_acc :: "string \<Rightarrow> string \<Rightarrow> string list" where
  "splitlines_acc acc [] = (if acc = [] then [] else [rev acc])"
| "splitlines_acc acc [c] = (if is_linebreak c then [rev acc] else [rev (c # acc)])"
| "splitlines_acc acc (c # d # cs) =
     (if c = CR \<and> d = NL then rev acc # splitlines_acc [] cs
      else if is_linebreak c then rev acc # splitlines_acc [] (d # cs)
      else splitlines_acc (c # acc) (d # cs))"

definition splitlines :: "string \<Rightarrow> string list" where
  "splitlines s = splitlines_acc [] s"

section \<open>FieldExtractor: \<open>extract_field\<close>\<close>

text \<open>
  The pattern is \<open>^\<close> + \<open>re.escape(label)\<close> + \<open>\s*:\s*(.*)$\<close> with \<open>IGNORECASE\<close> and
  \<open>MULTILINE\<close>. At a line start the match is deterministic: the escaped label is matched
  letter by letter without regard to case; the first \<open>\s*\<close> must take every whitespace
  character (no whitespace character is a colon); the second \<open>\s*\<close> is greedy and takes
  every whitespace character, line ends included; \<open>(.*)\<close> then takes the rest of that
  line, after which \<open>$\<close> holds, so the first attempt of the matcher succeeds.
  \<open>match_here\<close> returns group 1 and \<open>body[m.end():]\<close>.
\<close>

definition match_here :: "string \<Rightarrow> string \<Rightarrow> (string \<times> string) option" where
  "match_here label s =
     (if length label \<le> length s \<and> lower (take (length label) s) = lower label then
        (case dropWhile is_space (drop (length label) s) of
           [] \<Rightarrow> None
         | c # r \<Rightarrow>
             if c = CHR '':'' then
               (let v = dropWhile is_space r
                in Some (takeWhile (\<lambda>x. x \<noteq> NL) v, dropWhile (\<lambda>x. x \<noteq> NL) v))
             else None)
      else None)"

text \<open>
  \<open>pattern.search\<close>: the leftmost start at which the pattern matches; \<open>^\<close> holds at the
  start of the text and right after every \<open>\n\<close> (the flag \<open>bol\<close>).
\<close>

fun search :: "string \<Rightarrow> bool \<Rightarrow> string \<Rightarrow> (string \<times> string) option" where
  "search label bol [] = (if bol then match_here label [] else None)"
| "search label bol (c # cs) =
     (case (if bol then match_here label (c # cs) else None) of
        Some m \<Rightarrow> Some m
      | None \<Rightarrow> search label (c = NL) cs)"

text \<open>The loop over \<open>tail.splitlines()\<close>: it ends in its first round, either way.\<close>

definition next_line :: "string \<Rightarrow> string option" where
  "next_line tail =
     (case splitlines tail of
        [] \<Rightarrow> None
      | line # _ \<Rightarrow> if strip line = [] then None else Some (strip line))"

definition extract_field :: "string \<Rightarrow> string \<Rightarrow> string option" where
  "extract_field body label =
     (if body = [] then None
      else case search label True body of
             None \<Rightarrow> None
           | Some (g, tail) \<Rightarrow>
               (let inline = strip g
                in if inline \<noteq> [] then Some inline else next_line tail))"

section \<open>Tables\<close>

text \<open>
  A cell of a data frame is missing (\<open>NaN\<close>, \<open>None\<close>, \<open>NaT\<close>), a text, or another scalar
  (a number, a timestamp), kept with the text that \<open>str()\<close> gives for it. A data frame is
  the list of its columns, each a label with one cell per row.
\<close>

datatype cell = Missing | Text string | Other string

type_synonym dataframe = "(string \<times> cell list) list"

type_synonym row = "(string \<times> cell) list"

datatype 'a attempt = Raised | Got 'a

definition df_columns :: "dataframe \<Rightarrow> string list" where
  "df_columns df = map fst df"

definition nrows :: "dataframe \<Rightarrow> nat" where
  "nrows df = (case df of [] \<Rightarrow> 0 | c # _ \<Rightarrow> length (snd c))"

definition df_empty :: "dataframe \<Rightarrow> bool" where
  "df_empty df = (df = [] \<or> nrows df = 0)"

text \<open>\<open>df[c] = vs\<close>: an existing column is replaced in place, a new one is appended.\<close>

fun set_column :: "dataframe \<Rightarrow> string \<Rightarrow> cell list \<Rightarrow> dataframe" where
  "set_column [] c vs = [(c, vs)]"
| "set_column ((n, ws) # df) c vs =
     (if n = c then (n, vs) # df else (n, ws) # set_column df c vs)"

text \<open>\<open>df[mask]\<close>: the rows whose mask entry is true, in every column.\<close>

fun mask_select :: "bool list \<Rightarrow> 'a list \<Rightarrow> 'a list" where
  "mask_select (b # bs) (x # xs) = (if b then x # mask_select bs xs else mask_select bs xs)"
| "mask_select _ _ = []"

definition select_rows :: "bool list \<Rightarrow> dataframe \<Rightarrow> dataframe" where
  "select_rows keep df = map (\<lambda>(n, vs). (n, mask_select keep vs)) df"

text \<open>The rows of a frame of \<open>n\<close> rows, each row pairing the labels with its cells.\<close>

fun rows_of :: "nat \<Rightarrow> dataframe \<Rightarrow> row list" where
  "rows_of n [] = replicate n []"
| "rows_of n ((c, vs) # df) = map2 (\<lambda>v r. (c, v) # r) vs (rows_of n df)"

definition df_rows :: "dataframe \<Rightarrow> row list" where
  "df_rows df = rows_of (nrows df) df"

definition row_field :: "row \<Rightarrow> string \<Rightarrow> cell" where
  "row_field r c = (case map_of r c of Some v \<Rightarrow> v | None \<Rightarrow> Missing)"

text \<open>Frames as pandas builds them: distinct labels, every column as long as the index.\<close>

definition well_formed :: "dataframe \<Rightarrow> bool" where
  "well_formed df =
     (distinct (df_columns df) \<and> list_all (\<lambda>c. length (snd c) = nrows df) df)"

definition astype_str :: "cell \<Rightarrow> string" where
  "astype_str v = (case v of Missing \<Rightarrow> ''nan'' | Text s \<Rightarrow> s | Other s \<Rightarrow> s)"

definition isna :: "cell \<Rightarrow> bool" where
  "isna v = (v = Missing)"


section \<open>Configuration\<close>

definition DATE_FMT :: string where
  "DATE_FMT = ''%m/%d/%Y''"

definition WORKFLOW_DEFAULT :: string where
  "WORKFLOW_DEFAULT = ''N/A, Workflow''"

definition WORKFLOW_NO_ROOM :: string where
  "WORKFLOW_NO_ROOM = ''NA''"

definition WORKFLOW_SUBJECT_KEY :: string where
  "WORKFLOW_SUBJECT_KEY = ''[INSERT EMAIL SUBJECT KEY HERE]''"

definition DATE_COL :: string where
  "DATE_COL = ''Date of Latest Change''"

definition SERIAL_COL :: string where
  "SERIAL_COL = ''Serial Number''"


section \<open>RowValidator: \<open>remove_bad_rows\<close>\<close>

definition junk_serials :: "string list" where
  "junk_serials = [''nan'', ''none'', ''null'', ''n/a'', '''', ''serial number'']"

text \<open>
  No call site passes \<open>None\<close>, so the argument is a frame. The guard returns the frame
  \<open>pd.DataFrame()\<close>, which has no column and no row.
\<close>

definition remove_bad_rows :: "dataframe \<Rightarrow> dataframe" where
  "remove_bad_rows df =
     (if df_empty df \<or> SERIAL_COL \<notin> set (df_columns df) then []
      else case map_of df SERIAL_COL of
             None \<Rightarrow> []
           | Some ser \<Rightarrow>
               (let s = map (\<lambda>v. lower (strip (astype_str v))) ser;
                    bad = map2 (\<or>) (map (\<lambda>x. x \<in> set junk_serials) s) (map isna ser)
                in select_rows (map Not bad) df))"

text \<open>
  The contract the validator is held to, in the words of its specification: the serial is
  present and, trimmed and lowercased, is none of the reserved junk values.
\<close>

definition valid_serial :: "cell \<Rightarrow> bool" where
  "valid_serial v =
     (v \<noteq> Missing \<and>
      lower (strip (astype_str v)) \<notin> {''nan'', ''none'', ''null'', ''n/a'', [], ''serial number''})"

section \<open>DateNormalizer: \<open>format_date_columns\<close>\<close>

text \<open>
  A timestamp as far as \<open>strftime\<close> reads it. \<open>strftime\<close> interprets the three
  directives that \<open>DATE_FMT\<close> uses (\<open>%m\<close> and \<open>%d\<close> zero-padded to two digits, \<open>%Y\<close> the
  year in decimal) and copies every other character.
\<close>

record timestamp =
  ts_year :: nat
  ts_month :: nat
  ts_day :: nat

definition digit :: "nat \<Rightarrow> char" where
  "digit n = ''0123456789'' ! (n mod 10)"

fun decimal :: "nat \<Rightarrow> string" where
  "decimal n = (if n < 10 then [digit n] else decimal (n div 10) @ [digit n])"

declare decimal.simps [simp del]

definition zfill :: "nat \<Rightarrow> string \<Rightarrow> string" where
  "zfill w s = replicate (w - length s) (CHR ''0'') @ s"

fun strftime :: "string \<Rightarrow> timestamp \<Rightarrow> string" where
  "strftime [] t = []"
| "strftime [c] t = [c]"
| "strftime (c # d # fmt) t =
     (if c = CHR ''%'' \<and> d = CHR ''m'' then zfill 2 (decimal (ts_month t)) @ strftime fmt t
      else if c = CHR ''%'' \<and> d = CHR ''d'' then zfill 2 (decimal (ts_day t)) @ strftime fmt t
      else if c = CHR ''%'' \<and> d = CHR ''Y'' then decimal (ts_year t) @ strftime fmt t
      else c # strftime (d # fmt) t)"

text \<open>
  \<open>pd.to_datetime(column, errors='coerce')\<close> is the library's: the parameter \<open>to_datetime\<close>
  gives, for a whole column, either \<open>Raised\<close> or one entry per cell, \<open>None\<close> standing for
  \<open>NaT\<close> (the cell was not parsed). \<open>.dt.strftime\<close> turns \<open>NaT\<close> into \<open>NaN\<close>.
\<close>

definition format_date_column ::
  "(cell list \<Rightarrow> timestamp option list attempt) \<Rightarrow> dataframe \<Rightarrow> string \<Rightarrow> dataframe" where
  "format_date_column to_datetime df c =
     (if c \<in> set (df_columns df) then
        (case map_of df c of
           None \<Rightarrow> df
         | Some vs \<Rightarrow>
             (case to_datetime vs of
                Raised \<Rightarrow> df
              | Got ts \<Rightarrow>
                  set_column df c
                    (map (\<lambda>t. case t of None \<Rightarrow> Missing
                                        | Some st \<Rightarrow> Text (strftime DATE_FMT st)) ts)))
      else df)"

definition format_date_columns ::
  "(cell list \<Rightarrow> timestamp option list attempt) \<Rightarrow> dataframe \<Rightarrow> dataframe" where
  "format_date_columns to_datetime df =
     foldl (format_date_column to_datetime) df [''Date of Latest Change'']"

text \<open>The pattern month/day/4-digit year.\<close>

definition is_digit :: "char \<Rightarrow> bool" where
  "is_digit c = (c \<in> set ''0123456789'')"

definition is_mdY :: "string \<Rightarrow> bool" where
  "is_mdY s =
     (case s of
        [m1, m2, s1, d1, d2, s2, y1, y2, y3, y4] \<Rightarrow>
          is_digit m1 \<and> is_digit m2 \<and> s1 = CHR ''/'' \<and> is_digit d1 \<and> is_digit d2 \<and>
          s2 = CHR ''/'' \<and> is_digit y1 \<and> is_digit y2 \<and> is_digit y3 \<and> is_digit y4
      | _ \<Rightarrow> False)"

section \<open>NameNormalizer: \<open>clean_name\<close>\<close>

definition strip_chars :: "string \<Rightarrow> string \<Rightarrow> string" where
  "strip_chars chars s =
     rev (dropWhile (\<lambda>c. c \<in> set chars) (rev (dropWhile (\<lambda>c. c \<in> set chars) s)))"

definition clean_name :: "string option \<Rightarrow> string option" where
  "clean_name s =
     (case s of
        None \<Rightarrow> None
      | Some s0 \<Rightarrow>
          if s0 = [] then Some s0
          else
            (let s1 = strip_chars [CHR 0x22, CHR 0x27] (strip s0);
                 s2 = (if CHR ''<'' \<in> set s1 then strip (takeWhile (\<lambda>c. c \<noteq> CHR ''<'') s1)
                       else s1)
             in if CHR '','' \<in> set s2 then
                  Some (strip (drop 1 (dropWhile (\<lambda>c. c \<noteq> CHR '','') s2)) @ '' '' @
                        strip (takeWhile (\<lambda>c. c \<noteq> CHR '','') s2))
                else Some s2))"

section \<open>PrioritySorter: \<open>sort_priority_devices\<close>\<close>

definition priority_patterns :: "string list" where
  "priority_patterns = [''macbook'', ''imac'', ''iphone'', ''ipad'', ''apple'']"

text \<open>\<open>fillna('').astype(str).str.lower()\<close>, then \<open>str.contains\<close> of the alternation.\<close>

definition is_priority_cell :: "cell \<Rightarrow> bool" where
  "is_priority_cell v =
     (let s = lower (astype_str (if isna v then Text [] else v))
      in list_ex (\<lambda>p. contains p s) priority_patterns)"

definition take_rows :: "nat list \<Rightarrow> dataframe \<Rightarrow> dataframe" where
  "take_rows order df = map (\<lambda>(n, vs). (n, map (\<lambda>i. vs ! i) order)) df"

text \<open>
  The helper columns \<open>_p\<close> and \<open>_idx\<close> live between their creation and the final
  \<open>drop\<close> only; the model keeps them beside the frame as the list of the rows' keys.
  \<open>sort_values\<close> orders by \<open>_p\<close> descending, then by \<open>_idx\<close> ascending: by the key
  \<open>(\<not> _p, _idx)\<close> ascending. No two rows share a key, so the sorted order is unique.
\<close>

definition sort_priority_devices :: "dataframe \<Rightarrow> dataframe" where
  "sort_priority_devices df =
     (if df_empty df \<or> ''Device Model'' \<notin> set (df_columns df) then df
      else case map_of df ''Device Model'' of
             None \<Rightarrow> df
           | Some model \<Rightarrow>
               (let is_priority = map is_priority_cell model;
                    keys = zip is_priority [0..<nrows df];
                    sorted_keys = sort_key (\<lambda>(p, i). (\<not> p, i)) keys
                in take_rows (map snd sorted_keys) df))"

definition is_priority_row :: "row \<Rightarrow> bool" where
  "is_priority_row r = is_priority_cell (row_field r ''Device Model'')"

section \<open>BatchAssembler: the canonical schema\<close>

definition cols :: "string list" where
  "cols = [''Serial Number'', ''Device Model'', ''P.O. Number'', ''Device Owner'',
           ''Computer Name'', ''Date of Latest Change'', ''Changed By'',
           ''Location'', ''Classification'', ''Comments'']"

text \<open>The loop \<open>for c in cols: if c not in final_df.columns: final_df[c] = ''\<close>.\<close>

fun ensure_columns :: "string list \<Rightarrow> dataframe \<Rightarrow> dataframe" where
  "ensure_columns [] df = df"
| "ensure_columns (c # cs) df =
     ensure_columns cs
       (if c \<notin> set (df_columns df) then set_column df c (replicate (nrows df) (Text []))
        else df)"

text \<open>
  \<open>df[labels]\<close>: for each label in turn, every column that carries it; \<open>KeyError\<close> when a
  label has no column.
\<close>

definition select_columns :: "string list \<Rightarrow> dataframe \<Rightarrow> dataframe attempt" where
  "select_columns labels df =
     (if set labels \<subseteq> set (df_columns df)
      then Got (concat (map (\<lambda>c. filter (\<lambda>p. fst p = c) df) labels))
      else Raised)"

definition enforce_schema :: "dataframe \<Rightarrow> dataframe attempt" where
  "enforce_schema final_df = select_columns cols (ensure_columns cols final_df)"

section \<open>AnomalyAuditor\<close>

text \<open>
  The value of a worksheet cell: \<open>None\<close> for an empty cell, a text, or another scalar (a
  number, a boolean, a date), kept with the truth value Python gives it and the text
  \<open>str()\<close> gives for it: the number \<open>0\<close> is \<open>XScalar False ''0''\<close>, the number \<open>203\<close> is
  \<open>XScalar True ''203''\<close>. A worksheet cell is its value and whether the yellow fill is
  on it. Each sub-pass walks one column from row 2 down.
\<close>

datatype xl_value = XNone | XText string | XScalar bool string

record xl_cell =
  cell_value :: xl_value
  yellow :: bool

text \<open>\<open>str(value)\<close> and the truth value of \<open>value\<close>, for a cell value.\<close>

definition xl_str :: "xl_value \<Rightarrow> string" where
  "xl_str v = (case v of XNone \<Rightarrow> ''None'' | XText s \<Rightarrow> s | XScalar b s \<Rightarrow> s)"


text \<open>The same two for an optional text (the result of \<open>extract_field\<close>).\<close>

definition py_str :: "string option \<Rightarrow> string" where
  "py_str v = (case v of None \<Rightarrow> ''None'' | Some s \<Rightarrow> s)"

definition truthy :: "string option \<Rightarrow> bool" where
  "truthy v = (case v of None \<Rightarrow> False | Some s \<Rightarrow> s \<noteq> [])"

subsection \<open>Location codes\<close>





subsection \<open>Date outliers\<close>

text \<open>
  \<open>Counter(dates)\<close> keeps its keys in the order of their first occurrence.
  \<open>most_common(1)\<close> is \<open>heapq.nlargest(1, items, key=count)\<close>, that is \<open>max\<close> over the
  items: the first item among those of the largest count.
\<close>

fun counter_add :: "'k \<Rightarrow> ('k \<times> nat) list \<Rightarrow> ('k \<times> nat) list" where
  "counter_add k [] = [(k, 1)]"
| "counter_add k ((k', n) # kvs) =
     (if k = k' then (k', n + 1) # kvs else (k', n) # counter_add k kvs)"

definition Counter :: "'k list \<Rightarrow> ('k \<times> nat) list" where
  "Counter xs = foldl (\<lambda>c k. counter_add k c) [] xs"

fun max_by_count :: "('k \<times> nat) \<Rightarrow> ('k \<times> nat) list \<Rightarrow> ('k \<times> nat)" where
  "max_by_count best [] = best"
| "max_by_count best (kv # kvs) = max_by_count (if snd best < snd kv then kv else best) kvs"

definition most_common1 :: "('k \<times> nat) list \<Rightarrow> ('k \<times> nat) list" where
  "most_common1 items = (case items of [] \<Rightarrow> [] | kv # kvs \<Rightarrow> [max_by_count kv kvs])"

text \<open>
  The parameter \<open>ym\<close> is the body of both \<open>try\<close> blocks,
  \<open>dt = pd.to_datetime(value); (dt.year, dt.month)\<close>: \<open>None\<close> when it raises (the
  \<open>except\<close> passes), the pair otherwise. The pair read from a timestamp is a year and a
  month; the pair read from \<open>NaT\<close> is \<open>(nan, nan)\<close>, and since both are the one object
  \<open>np.nan\<close>, all such pairs are equal to each other and one key of the counter.
\<close>

datatype period = Period nat nat | NaN_period

fun collect_dates :: "(xl_value \<Rightarrow> 'k option) \<Rightarrow> xl_cell list \<Rightarrow> 'k list" where
  "collect_dates ym [] = []"
| "collect_dates ym (cell # rest) =
     (case ym (cell_value cell) of
        None \<Rightarrow> collect_dates ym rest
      | Some k \<Rightarrow> k # collect_dates ym rest)"

fun flag_outliers ::
  "(xl_value \<Rightarrow> 'k option) \<Rightarrow> 'k \<Rightarrow> xl_cell list \<Rightarrow> nat \<Rightarrow> xl_cell list \<times> nat" where
  "flag_outliers ym mode_ym [] outliers = ([], outliers)"
| "flag_outliers ym mode_ym (cell # rest) outliers =
     (case ym (cell_value cell) of
        None \<Rightarrow>
          (let (rest', n) = flag_outliers ym mode_ym rest outliers in (cell # rest', n))
      | Some k \<Rightarrow>
          if k \<noteq> mode_ym then
            (let (rest', n) = flag_outliers ym mode_ym rest (outliers + 1)
             in (cell\<lparr>yellow := True\<rparr> # rest', n))
          else
            (let (rest', n) = flag_outliers ym mode_ym rest outliers in (cell # rest', n)))"

text \<open>\<open>most_common(1)[0][0]\<close> raises \<open>IndexError\<close> on an empty list, outside any \<open>try\<close>.\<close>

definition date_pass ::
  "(xl_value \<Rightarrow> 'k option) \<Rightarrow> xl_cell list \<Rightarrow> (xl_cell list \<times> nat) attempt" where
  "date_pass ym cells =
     (let dates = collect_dates ym cells
      in if dates \<noteq> [] then
           (case most_common1 (Counter dates) of
              [] \<Rightarrow> Raised
            | (mode_ym, _) # _ \<Rightarrow> Got (flag_outliers ym mode_ym cells 0))
         else Got (cells, 0))"

subsection \<open>Cross-reference against the master list\<close>

text \<open>
  What the two dialogs and \<open>pd.read_excel(ref_path, usecols=[0]).iloc[:,0]\<close> give: the
  user skips, picks no file, the read raises, or the first column of the file.
\<close>

datatype master_list = Skip | NoFile | Unreadable | Masters "cell list"

fun flag_unknown :: "string list \<Rightarrow> xl_cell list \<Rightarrow> nat \<Rightarrow> xl_cell list \<times> nat" where
  "flag_unknown master_set [] missing_serials = ([], missing_serials)"
| "flag_unknown master_set (cell # rest) missing_serials =
     (let s_val = strip (xl_str (cell_value cell))
      in if s_val \<noteq> [] \<and> s_val \<notin> set master_set then
           (let (rest', n) = flag_unknown master_set rest (missing_serials + 1)
            in (cell\<lparr>yellow := True\<rparr> # rest', n))
         else
           (let (rest', n) = flag_unknown master_set rest missing_serials
            in (cell # rest', n)))"

record serial_check =
  checked_cells :: "xl_cell list"
  missing_serials :: nat
  check_performed :: bool

definition check_serials :: "master_list \<Rightarrow> xl_cell list \<Rightarrow> serial_check" where
  "check_serials choice cells =
     (case choice of
        Masters masters \<Rightarrow>
          (let master_set = map (\<lambda>v. strip (astype_str v)) masters;
               (cells', n) = flag_unknown master_set cells 0
           in \<lparr>checked_cells = cells', missing_serials = n, check_performed = True\<rparr>)
      | _ \<Rightarrow> \<lparr>checked_cells = cells, missing_serials = 0, check_performed = False\<rparr>)"

text \<open>The last line of the report.\<close>

definition serial_report_line :: "serial_check \<Rightarrow> string" where
  "serial_report_line r =
     (if check_performed r then ''Unknown Serials: '' @ decimal (missing_serials r)
      else ''Serial Check: Skipped'')"

section \<open>SourceRecordBuilder and StatsCollector: the loop over the input directory\<close>

record stats =
  total_emails :: nat
  with_excel :: nat
  workflow_emails :: nat
  no_excel :: nat
  entries_created :: nat

text \<open>
  What the loop reads of an attachment and of a message: \<open>longFilename\<close>, the outcome of
  \<open>pd.read_excel\<close> on the payload, the date \<open>get_file_date\<close> finds; the sender
  \<open>get_sender\<close> resolves, the attachments, and the reads of \<open>subject\<close> and \<open>body\<close>,
  which raise on a damaged message. \<open>extract_msg.Message(path)\<close> itself raises or gives
  the message.
\<close>

record attachment =
  longFilename :: "string option"
  read_excel :: "dataframe attempt"
  date_val :: cell

record message =
  sender :: string
  attachments :: "attachment list"
  subject :: "string option attempt"
  body :: "string option attempt"

record pipeline =
  data_frames :: "dataframe list"
  workflow_data :: "(string \<times> string) list list"
  no_row_emails :: "string list"
  stats :: stats

definition initial :: pipeline where
  "initial =
     \<lparr>data_frames = [], workflow_data = [], no_row_emails = [],
      stats = \<lparr>total_emails = 0, with_excel = 0, workflow_emails = 0, no_excel = 0,
               entries_created = 0\<rparr>\<rparr>"


text \<open>\<open>x or d\<close> on an optional text.\<close>

definition or_default :: "string option \<Rightarrow> string \<Rightarrow> string" where
  "or_default v d = (case v of None \<Rightarrow> d | Some s \<Rightarrow> if s = [] then d else s)"

definition column :: "dataframe \<Rightarrow> string \<Rightarrow> cell list" where
  "column df c = (case map_of df c of Some vs \<Rightarrow> vs | None \<Rightarrow> [])"



definition workflow_record :: "string \<Rightarrow> string \<Rightarrow> string \<Rightarrow> (string \<times> string) list" where
  "workflow_record serial body_text sender_name =
     [(''Serial Number'', strip serial),
      (''Device Model'', or_default (extract_field body_text ''[HEADER: MODEL]'') WORKFLOW_DEFAULT),
      (''P.O. Number'', []),
      (''Device Owner'', or_default (extract_field body_text ''Full Name'') WORKFLOW_DEFAULT),
      (''Computer Name'', WORKFLOW_DEFAULT),
      (''Date of Latest Change'', or_default (extract_field body_text ''Date'') WORKFLOW_DEFAULT),
      (''Changed By'',
         or_default (clean_name (extract_field body_text ''[HEADER: STAFF]'')) sender_name),
      (''Location'', or_default (extract_field body_text ''[HEADER: ROOM]'') WORKFLOW_NO_ROOM),
      (''Classification'', WORKFLOW_DEFAULT),
      (''Comments'', [])]"

text \<open>
  The workflow part of the \<open>try\<close> block. The result is \<open>Raised\<close> when a read of the
  message raises, with the state as it is at that moment, and \<open>has_workflow\<close> otherwise.
\<close>

definition workflow_step :: "message \<Rightarrow> pipeline \<Rightarrow> bool attempt \<times> pipeline" where
  "workflow_step msg st =
     (case subject msg of
        Raised \<Rightarrow> (Raised, st)
      | Got sj \<Rightarrow>
          (let subj = or_default sj []
           in if contains (lower WORKFLOW_SUBJECT_KEY) (lower subj) then
                (let st1 = st\<lparr>stats := (stats st)\<lparr>workflow_emails :=
                                   workflow_emails (stats st) + 1\<rparr>\<rparr>
                 in case body msg of
                      Raised \<Rightarrow> (Raised, st1)
                    | Got bd \<Rightarrow>
                        (let body_text = or_default bd [];
                             serial = extract_field body_text ''Serial Number''
                         in if truthy serial \<and>
                               lower (py_str serial) \<notin> set [''nan'', ''none'', ''''] then
                              (Got True,
                               st1\<lparr>workflow_data := workflow_data st1 @
                                      [workflow_record (py_str serial) body_text (sender msg)],
                                    stats := (stats st1)\<lparr>entries_created :=
                                      entries_created (stats st1) + 1\<rparr>\<rparr>)
                            else (Got False, st1)))
              else (Got False, st)))"




section \<open>Example data\<close>

definition example_table :: dataframe where
  "example_table =
     [(''Serial Number'',
         [Text ''A1'', Missing, Text '' N/A '', Other ''12'', Text ''Serial Number'', Text ''b2'']),
      (''Device Model'',
         [Text ''Dell 5520'', Text ''iPad'', Text ''MacBook Pro'', Missing, Text ''Device Model'',
          Text ''Apple TV''])]"


definition plain_cell :: "xl_value \<Rightarrow> xl_cell" where
  "plain_cell v = \<lparr>cell_value = v, yellow = False\<rparr>"



definition example_junk_message :: message where
  "example_junk_message =
     \<lparr>sender = ''Bo Jones'',
      attachments = [],
      subject = Got (Some (''FW: '' @ WORKFLOW_SUBJECT_KEY)),
      body = Got (Some ''Serial Number: N/A'')\<rparr>"


definition example_nan_message :: message where
  "example_nan_message =
     \<lparr>sender = ''Bo Jones'',
      attachments = [],
      subject = Got (Some (''FW: '' @ WORKFLOW_SUBJECT_KEY)),
      body = Got (Some ''Serial Number: NaN'')\<rparr>"

text \<open>
  For the examples: the library's conversion on the texts in month/day/4-digit year, every
  other cell coerced to \<open>NaT\<close>.
\<close>

definition digit_value :: "char \<Rightarrow> nat" where
  "digit_value c = of_char c - 48"

definition parse_mdY :: "string \<Rightarrow> timestamp option" where
  "parse_mdY s =
     (if is_mdY s then
        Some \<lparr>ts_year = digit_value (s ! 6) * 1000 + digit_value (s ! 7) * 100 +
                          digit_value (s ! 8) * 10 + digit_value (s ! 9),
              ts_month = digit_value (s ! 0) * 10 + digit_value (s ! 1),
              ts_day = digit_value (s ! 3) * 10 + digit_value (s ! 4)\<rparr>
      else None)"

definition to_datetime_mdY :: "cell list \<Rightarrow> timestamp option list attempt" where
  "to_datetime_mdY vs = Got (map (\<lambda>v. case v of Text s \<Rightarrow> parse_mdY s | _ \<Rightarrow> None) vs)"

definition example_dates :: dataframe where
  "example_dates =
     [(''Serial Number'', [Text ''A1'', Text ''B2'']),
      (''Date of Latest Change'', [Text ''01/15/2024'', Text ''TBD''])]"


text \<open>
  What the \<open>try\<close> block gives on the three values of the date example: the two texts are
  dates of January 2024; for the empty cell \<open>pd.to_datetime(None)\<close> is \<open>NaT\<close> (pandas 3;
  the source pins no version) and the pair read from it is \<open>(nan, nan)\<close>. No other value
  is used.
\<close>

definition ym_example :: "xl_value \<Rightarrow> period option" where
  "ym_example v =
     (if v = XNone then Some NaN_period
      else if v = XText ''01/02/2024'' \<or> v = XText ''01/09/2024'' then Some (Period 2024 1)
      else None)"

section \<open>Properties of the text primitives and of FieldExtractor\<close>

text \<open>
  Group 1 of a match is blank only when nothing but whitespace follows the colon up to
  the end of the text; then \<open>body[m.end():]\<close> is empty and the loop over its lines has
  nothing to return. So the extractor returns group 1 trimmed, or nothing.
\<close>

lemma strip_Nil_iff: "strip s = [] \<longleftrightarrow> (\<forall>c \<in> set s. is_space c)"
proof -
  have "strip s = [] \<longleftrightarrow> (\<forall>c \<in> set (dropWhile is_space s). is_space c)"
    by (simp add: strip_def rstrip_def lstrip_def dropWhile_eq_Nil_conv)
  also have "\<dots> \<longleftrightarrow> dropWhile is_space s = []"
  proof
    assume all: "\<forall>c \<in> set (dropWhile is_space s). is_space c"
    show "dropWhile is_space s = []"
    proof (rule ccontr)
      assume ne: "dropWhile is_space s \<noteq> []"
      then have "\<not> is_space (hd (dropWhile is_space s))" by (rule hd_dropWhile)
      moreover from ne have "hd (dropWhile is_space s) \<in> set (dropWhile is_space s)" by simp
      ultimately show False using all by blast
    qed
  next
    assume e: "dropWhile is_space s = []"
    show "\<forall>c \<in> set (dropWhile is_space s). is_space c" unfolding e by simp
  qed
  also have "\<dots> \<longleftrightarrow> (\<forall>c \<in> set s. is_space c)"
    by (simp add: dropWhile_eq_Nil_conv)
  finally show ?thesis .
qed

lemma is_space_NL: "is_space NL"
  by (simp add: is_space_def NL_def)

lemma group_blank_at_end:
  assumes "strip (takeWhile (\<lambda>x. x \<noteq> NL) (dropWhile is_space r)) = []"
  shows "dropWhile is_space r = []"
proof (rule ccontr)
  let ?v = "dropWhile is_space r"
  assume ne: "?v \<noteq> []"
  then have ns: "\<not> is_space (hd ?v)" by (rule hd_dropWhile)
  with is_space_NL have "hd ?v \<noteq> NL" by auto
  with ne have "hd ?v \<in> set (takeWhile (\<lambda>x. x \<noteq> NL) ?v)"
    by (cases ?v) auto
  with assms ns show False by (auto simp: strip_Nil_iff)
qed

lemma match_here_lookahead:
  assumes m: "match_here label s = Some (g, tail)" and blank: "strip g = []"
  shows "tail = []"
proof -
  from m obtain r where g: "g = takeWhile (\<lambda>x. x \<noteq> NL) (dropWhile is_space r)"
    and tail: "tail = dropWhile (\<lambda>x. x \<noteq> NL) (dropWhile is_space r)"
    by (auto simp: match_here_def Let_def split: if_splits list.splits)
  from blank have "dropWhile is_space r = []"
    unfolding g by (rule group_blank_at_end)
  with tail show ?thesis by simp
qed

lemma search_lookahead:
  "search label bol s = Some (g, tail) \<Longrightarrow> strip g = [] \<Longrightarrow> tail = []"
proof (induction s arbitrary: bol)
  case Nil
  then show ?case by (auto split: if_splits dest: match_here_lookahead)
next
  case (Cons c cs)
  show ?case
  proof (cases "if bol then match_here label (c # cs) else None")
    case None
    with Cons.prems have "search label (c = NL) cs = Some (g, tail)" by simp
    from Cons.IH [OF this Cons.prems(2)] show ?thesis .
  next
    case (Some m)
    with Cons.prems have "match_here label (c # cs) = Some (g, tail)"
      by (auto split: if_splits)
    from match_here_lookahead [OF this Cons.prems(2)] show ?thesis .
  qed
qed

lemma next_line_Nil: "next_line [] = None"
  by (simp add: next_line_def splitlines_def)

lemma extract_field_inline_only:
  "extract_field txt label =
     (if txt = [] then None
      else case search label True txt of
             None \<Rightarrow> None
           | Some (g, tail) \<Rightarrow> if strip g = [] then None else Some (strip g))"
proof (cases "search label True txt")
  case None
  then show ?thesis by (simp add: extract_field_def)
next
  case (Some m)
  obtain g tail where m: "m = (g, tail)" by (cases m)
  show ?thesis
  proof (cases "strip g = []")
    case True
    with Some m have "tail = []" by (auto dest: search_lookahead)
    with True Some m show ?thesis by (simp add: extract_field_def next_line_Nil)
  next
    case False
    with Some m show ?thesis by (simp add: extract_field_def)
  qed
qed

lemma extract_field_next_line:
  "extract_field (''Serial Number:'' @ [NL] @ ''  ABC123 '' @ [NL] @ ''Room: 4'') ''serial number'' =
     Some ''ABC123''"
  by code_simp

text \<open>
  C1. The claim: when the label stands alone on its line and the very next line is blank,
  the extractor yields nothing and never reaches a later line. The code does reach it:
  the second \<open>\s*\<close> of the pattern runs over every line end after the colon, so
  group 1 is the first text after any number of blank lines.
\<close>

theorem extract_field_skips_blank_line:
  "extract_field (''Serial Number:'' @ [NL, NL] @ ''ABC123'') ''Serial Number'' = Some ''ABC123''"
  by code_simp

section \<open>Properties of RowValidator\<close>

lemma mask_select_map2:
  "mask_select m (map2 f xs ys) = map2 f (mask_select m xs) (mask_select m ys)"
proof (induction m arbitrary: xs ys)
  case Nil
  then show ?case by simp
next
  case (Cons b m)
  show ?case
  proof (cases xs)
    case Nil
    then show ?thesis by simp
  next
    case xs: (Cons x xs')
    show ?thesis
    proof (cases ys)
      case Nil
      then show ?thesis by (cases "mask_select (b # m) xs") simp_all
    next
      case (Cons y ys')
      with xs Cons.IH show ?thesis by simp
    qed
  qed
qed

lemma mask_select_replicate:
  "length m = n \<Longrightarrow> mask_select m (replicate n x) = replicate (length (filter (\<lambda>b. b) m)) x"
  by (induction m arbitrary: n) auto

lemma length_mask_select:
  "length m = length xs \<Longrightarrow> length (mask_select m xs) = length (filter (\<lambda>b. b) m)"
  by (induction m xs rule: mask_select.induct) auto

lemma mask_select_map_filter: "mask_select (map p xs) xs = filter p xs"
  by (induction xs) auto

lemma length_rows_of:
  "list_all (\<lambda>c. length (snd c) = n) df \<Longrightarrow> length (rows_of n df) = n"
  by (induction df) auto

lemma rows_of_select_rows:
  "list_all (\<lambda>c. length (snd c) = n) df \<Longrightarrow> length m = n \<Longrightarrow>
   rows_of (length (filter (\<lambda>b. b) m)) (select_rows m df) = mask_select m (rows_of n df)"
proof (induction df)
  case Nil
  then show ?case by (simp add: select_rows_def mask_select_replicate)
next
  case (Cons col df)
  obtain c vs where col: "col = (c, vs)" by (cases col)
  from Cons.prems have "list_all (\<lambda>c. length (snd c) = n) df" by simp
  with Cons.IH Cons.prems(2)
  have IH: "rows_of (length (filter (\<lambda>b. b) m)) (select_rows m df) = mask_select m (rows_of n df)"
    by simp
  show ?case
    using IH by (simp add: col select_rows_def mask_select_map2)
qed

lemma row_field_rows_of:
  "list_all (\<lambda>c. length (snd c) = n) df \<Longrightarrow> distinct (map fst df) \<Longrightarrow>
   map (\<lambda>r. row_field r c) (rows_of n df) =
     (case map_of df c of Some vs \<Rightarrow> vs | None \<Rightarrow> replicate n Missing)"
proof (induction df)
  case Nil
  then show ?case by (simp add: row_field_def)
next
  case (Cons col df)
  obtain c' ws where col: "col = (c', ws)" by (cases col)
  from Cons.prems have len: "length ws = n" and all: "list_all (\<lambda>c. length (snd c) = n) df"
    and dist: "distinct (map fst df)"
    by (simp_all add: col)
  have lr: "length (rows_of n df) = n" using all by (rule length_rows_of)
  have IH: "map (\<lambda>r. row_field r c) (rows_of n df) =
     (case map_of df c of Some vs \<Rightarrow> vs | None \<Rightarrow> replicate n Missing)"
    using Cons.IH all dist by simp
  show ?case
  proof (cases "c = c'")
    case True
    have "map (\<lambda>r. row_field r c) (map2 (\<lambda>v r. (c', v) # r) ws (rows_of n df)) = map fst (zip ws (rows_of n df))"
      using True by (simp add: row_field_def case_prod_unfold)
    also have "\<dots> = ws" using len lr by simp
    finally show ?thesis using True by (simp add: col)
  next
    case False
    have "map (\<lambda>r. row_field r c) (map2 (\<lambda>v r. (c', v) # r) ws (rows_of n df)) = map (\<lambda>r. row_field r c) (map snd (zip ws (rows_of n df)))"
      using False by (simp add: row_field_def case_prod_unfold)
    also have "\<dots> = map (\<lambda>r. row_field r c) (rows_of n df)" using len lr by simp
    finally show ?thesis using False IH by (simp add: col)
  qed
qed


lemma nrows_select_rows:
  "df \<noteq> [] \<Longrightarrow> length m = nrows df \<Longrightarrow> nrows (select_rows m df) = length (filter (\<lambda>b. b) m)"
  by (cases df) (auto simp: nrows_def select_rows_def length_mask_select)

lemma junk_mask:
  "map Not (map2 (\<or>) (map (\<lambda>x. x \<in> set junk_serials) (map (\<lambda>v. lower (strip (astype_str v))) ser))
                       (map isna ser)) = map valid_serial ser"
  by (induction ser) (auto simp: valid_serial_def junk_serials_def isna_def)

lemma rows_of_zero: "list_all (\<lambda>c. length (snd c) = 0) df \<Longrightarrow> df \<noteq> [] \<Longrightarrow> rows_of 0 df = []"
  by (cases df) auto

text \<open>
  C4. A row is kept if and only if its serial is present and, trimmed and lowercased, is
  none of the junk values: the rows of the result are the valid rows, in their order.
\<close>

theorem remove_bad_rows_keeps_valid:
  assumes wf: "well_formed df"
  shows "df_rows (remove_bad_rows df) =
         filter (\<lambda>r. valid_serial (row_field r SERIAL_COL)) (df_rows df)"
proof -
  let ?n = "nrows df"
  from wf have all: "list_all (\<lambda>c. length (snd c) = ?n) df" and dist: "distinct (map fst df)"
    by (simp_all add: well_formed_def df_columns_def)
  have fields: "map (\<lambda>r. row_field r SERIAL_COL) (rows_of ?n df) =
     (case map_of df SERIAL_COL of Some vs \<Rightarrow> vs | None \<Rightarrow> replicate ?n Missing)"
    using all dist by (rule row_field_rows_of)
  show ?thesis
  proof (cases "df_empty df \<or> SERIAL_COL \<notin> set (df_columns df)")
    case True
    then have res: "remove_bad_rows df = []" by (simp add: remove_bad_rows_def)
    have "filter (\<lambda>r. valid_serial (row_field r SERIAL_COL)) (rows_of ?n df) = []"
    proof (cases "df_empty df")
      case True
      then show ?thesis using all
        by (cases df) (auto simp: df_empty_def nrows_def)
    next
      case False
      with True have "SERIAL_COL \<notin> set (df_columns df)" by simp
      then have "map_of df SERIAL_COL = None"
        by (simp add: df_columns_def map_of_eq_None_iff)
      with fields have "map (\<lambda>r. row_field r SERIAL_COL) (rows_of ?n df) = replicate ?n Missing"
        by simp
      then have "\<forall>r \<in> set (rows_of ?n df). row_field r SERIAL_COL = Missing"
        by (metis (no_types, lifting) in_set_replicate image_eqI list.set_map)
      then show ?thesis by (auto simp: valid_serial_def filter_empty_conv)
    qed
    with res show ?thesis by (simp add: df_rows_def nrows_def)
  next
    case False
    then have ne: "df \<noteq> []" and present: "SERIAL_COL \<in> set (df_columns df)"
      by (auto simp: df_empty_def)
    then obtain ser where ser: "map_of df SERIAL_COL = Some ser"
      by (auto simp: df_columns_def dest: weak_map_of_SomeI)
    then have "(SERIAL_COL, ser) \<in> set df" by (rule map_of_SomeD)
    with all have len: "length ser = ?n" by (auto simp: list_all_iff)
    have res: "remove_bad_rows df = select_rows (map valid_serial ser) df"
      using False ser unfolding remove_bad_rows_def Let_def junk_mask by simp
    have "df_rows (remove_bad_rows df) =
          rows_of (length (filter (\<lambda>b. b) (map valid_serial ser))) (select_rows (map valid_serial ser) df)"
      using ne len by (simp add: df_rows_def res nrows_select_rows)
    also have "\<dots> = mask_select (map valid_serial ser) (rows_of ?n df)"
      by (rule rows_of_select_rows [OF all]) (simp add: len)
    also have "map valid_serial ser =
               map (\<lambda>r. valid_serial (row_field r SERIAL_COL)) (rows_of ?n df)"
    proof -
      from fields ser have "ser = map (\<lambda>r. row_field r SERIAL_COL) (rows_of ?n df)" by simp
      then have "map valid_serial ser =
                 map valid_serial (map (\<lambda>r. row_field r SERIAL_COL) (rows_of ?n df))"
        by simp
      then show ?thesis by (simp add: comp_def)
    qed
    also have "mask_select \<dots> (rows_of ?n df) =
               filter (\<lambda>r. valid_serial (row_field r SERIAL_COL)) (rows_of ?n df)"
      by (rule mask_select_map_filter)
    finally show ?thesis by (simp add: df_rows_def)
  qed
qed

theorem remove_bad_rows_keeps_valid_witness:
  "well_formed example_table \<and>
   df_rows (remove_bad_rows example_table) =
     [[(''Serial Number'', Text ''A1''), (''Device Model'', Text ''Dell 5520'')],
      [(''Serial Number'', Other ''12''), (''Device Model'', Missing)],
      [(''Serial Number'', Text ''b2''), (''Device Model'', Text ''Apple TV'')]]"
proof -
  have wf: "well_formed example_table" by code_simp
  have "filter (\<lambda>r. valid_serial (row_field r SERIAL_COL)) (df_rows example_table) =
     [[(''Serial Number'', Text ''A1''), (''Device Model'', Text ''Dell 5520'')],
      [(''Serial Number'', Other ''12''), (''Device Model'', Missing)],
      [(''Serial Number'', Text ''b2''), (''Device Model'', Text ''Apple TV'')]]"
    by code_simp
  with remove_bad_rows_keeps_valid [OF wf] wf show ?thesis by simp
qed

section \<open>Properties of PrioritySorter\<close>

lemma sort_keys_partition:
  assumes len: "length ps = n"
  shows "sort_key (\<lambda>(p, i). (\<not> p, i)) (zip ps [0..<n]) =
         filter fst (zip ps [0..<n]) @ filter (\<lambda>k. \<not> fst k) (zip ps [0..<n])"
proof (rule sort_key_inj_key_eq)
  let ?keys = "zip ps [0..<n]"
  let ?f = "\<lambda>(p, i). (\<not> p, i::nat)"
  show "mset ?keys = mset (filter fst ?keys @ filter (\<lambda>k. \<not> fst k) ?keys)"
    by simp
  show "inj_on ?f (set ?keys)"
    by (auto simp: inj_on_def)
  have "map snd ?keys = [0..<n]" using len by simp
  then have "sorted_wrt (<) (map snd ?keys)" by simp
  then have base: "sorted_wrt (\<lambda>a b. snd a < snd b) ?keys"
    by (simp add: sorted_wrt_map)
  have hi: "sorted_wrt (\<lambda>a b. ?f a \<le> ?f b) (filter fst ?keys)"
    by (rule sorted_wrt_mono_rel [OF _ sorted_wrt_filter [OF base]]) auto
  have lo: "sorted_wrt (\<lambda>a b. ?f a \<le> ?f b) (filter (\<lambda>k. \<not> fst k) ?keys)"
    by (rule sorted_wrt_mono_rel [OF _ sorted_wrt_filter [OF base]]) auto
  show "sorted (map ?f (filter fst ?keys @ filter (\<lambda>k. \<not> fst k) ?keys))"
    using hi lo by (auto simp: sorted_append sorted_wrt_map simp flip: sorted_wrt_map)
qed


lemma nth_indices_filter:
  "map ((!) xs) (map snd (filter (\<lambda>k. Q (fst k)) (zip (map P xs) [0..<length xs]))) =
   filter (\<lambda>x. Q (P x)) xs"
proof (induction xs rule: rev_induct)
  case Nil
  then show ?case by simp
next
  case (snoc x xs)
  let ?old = "map snd (filter (\<lambda>k. Q (fst k)) (zip (map P xs) [0..<length xs]))"
  have "\<forall>i \<in> set ?old. i < length xs"
    by (auto dest: set_zip_rightD)
  then have "map ((!) (xs @ [x])) ?old = map ((!) xs) ?old"
    by (simp add: nth_append)
  with snoc.IH show ?case by simp
qed

lemma rows_of_take_rows:
  assumes "list_all (\<lambda>c. length (snd c) = n) df" and "\<forall>i \<in> set order. i < n"
  shows "rows_of (length order) (take_rows order df) = map ((!) (rows_of n df)) order"
  using assms(1)
proof (induction df)
  case Nil
  have "replicate (length order) [] = map ((!) (replicate n [])) order"
    using assms(2) by (induction order) auto
  then show ?case by (simp add: take_rows_def)
next
  case (Cons col df)
  obtain c vs where col: "col = (c, vs)" by (cases col)
  from Cons.prems have len: "length vs = n" and all: "list_all (\<lambda>c. length (snd c) = n) df"
    by (simp_all add: col)
  have lr: "length (rows_of n df) = n" using all by (rule length_rows_of)
  from Cons.IH all
  have IH: "rows_of (length order) (take_rows order df) = map ((!) (rows_of n df)) order"
    by simp
  have "map2 (\<lambda>v r. (c, v) # r) (map ((!) vs) order) (map ((!) (rows_of n df)) order) =
        map ((!) (map2 (\<lambda>v r. (c, v) # r) vs (rows_of n df))) order"
    using assms(2) len lr by (induction order) auto
  with IH show ?case by (simp add: col take_rows_def)
qed

lemma nrows_take_rows: "df \<noteq> [] \<Longrightarrow> nrows (take_rows order df) = length order"
  by (cases df) (auto simp: nrows_def take_rows_def)

lemma not_priority_missing: "\<not> is_priority_cell Missing"
  by code_simp

text \<open>
  C8. The sorter is a stable partition: the rows of the result are the priority rows in
  their input order, followed by the other rows in their input order.
\<close>

theorem sort_priority_devices_stable_partition:
  assumes wf: "well_formed df"
  shows "df_rows (sort_priority_devices df) =
         filter is_priority_row (df_rows df) @ filter (\<lambda>r. \<not> is_priority_row r) (df_rows df)"
proof -
  let ?n = "nrows df"
  let ?rows = "rows_of ?n df"
  from wf have all: "list_all (\<lambda>c. length (snd c) = ?n) df" and dist: "distinct (map fst df)"
    by (simp_all add: well_formed_def df_columns_def)
  have lr: "length ?rows = ?n" using all by (rule length_rows_of)
  have fields: "map (\<lambda>r. row_field r ''Device Model'') ?rows =
     (case map_of df ''Device Model'' of Some vs \<Rightarrow> vs | None \<Rightarrow> replicate ?n Missing)"
    using all dist by (rule row_field_rows_of)
  show ?thesis
  proof (cases "df_empty df \<or> ''Device Model'' \<notin> set (df_columns df)")
    case True
    then have res: "sort_priority_devices df = df" by (simp add: sort_priority_devices_def)
    have "filter is_priority_row ?rows = []"
    proof (cases "df_empty df")
      case True
      then show ?thesis using all
        by (cases df) (auto simp: df_empty_def nrows_def)
    next
      case False
      with True have "''Device Model'' \<notin> set (df_columns df)" by simp
      then have "map_of df ''Device Model'' = None"
        by (simp add: df_columns_def map_of_eq_None_iff)
      with fields have "map (\<lambda>r. row_field r ''Device Model'') ?rows = replicate ?n Missing"
        by simp
      then have "\<forall>r \<in> set ?rows. row_field r ''Device Model'' = Missing"
        by (metis (no_types, lifting) in_set_replicate image_eqI list.set_map)
      then show ?thesis
        by (auto simp: is_priority_row_def not_priority_missing filter_empty_conv)
    qed
    moreover from this have "filter (\<lambda>r. \<not> is_priority_row r) ?rows = ?rows"
      by (simp add: filter_empty_conv)
    ultimately show ?thesis using res by (simp add: df_rows_def)
  next
    case False
    then have ne: "df \<noteq> []" and present: "''Device Model'' \<in> set (df_columns df)"
      by (auto simp: df_empty_def)
    then obtain model where model: "map_of df ''Device Model'' = Some model"
      by (auto simp: df_columns_def dest: weak_map_of_SomeI)
    then have "(''Device Model'', model) \<in> set df" by (rule map_of_SomeD)
    with all have len: "length model = ?n" by (auto simp: list_all_iff)
    from fields model have model_rows: "model = map (\<lambda>r. row_field r ''Device Model'') ?rows"
      by simp
    have flags: "map is_priority_cell model = map is_priority_row ?rows"
      by (subst model_rows) (simp add: is_priority_row_def comp_def)
    let ?keys = "zip (map is_priority_row ?rows) [0..<length ?rows]"
    let ?order = "map snd (filter fst ?keys) @ map snd (filter (\<lambda>k. \<not> fst k) ?keys)"
    have "sort_key (\<lambda>(p, i). (\<not> p, i)) ?keys = filter fst ?keys @ filter (\<lambda>k. \<not> fst k) ?keys"
      by (rule sort_keys_partition) simp
    then have res: "sort_priority_devices df = take_rows ?order df"
      using False model flags lr by (simp add: sort_priority_devices_def)
    have bound: "\<forall>i \<in> set ?order. i < ?n"
      using lr by (auto dest: set_zip_rightD)
    have "nrows (take_rows ?order df) = length ?order"
      using ne by (rule nrows_take_rows)
    then have "df_rows (sort_priority_devices df) = rows_of (length ?order) (take_rows ?order df)"
      by (simp only: df_rows_def res)
    also have "\<dots> = map ((!) ?rows) ?order"
      using all bound by (rule rows_of_take_rows)
    also have "\<dots> = map ((!) ?rows) (map snd (filter fst ?keys)) @
                     map ((!) ?rows) (map snd (filter (\<lambda>k. \<not> fst k) ?keys))"
      by simp
    also have "map ((!) ?rows) (map snd (filter fst ?keys)) = filter is_priority_row ?rows"
      using nth_indices_filter [where Q = "\<lambda>b. b" and P = is_priority_row and xs = ?rows]
      by simp
    also have "map ((!) ?rows) (map snd (filter (\<lambda>k. \<not> fst k) ?keys)) =
               filter (\<lambda>r. \<not> is_priority_row r) ?rows"
      using nth_indices_filter [where Q = Not and P = is_priority_row and xs = ?rows]
      by simp
    finally show ?thesis by (simp add: df_rows_def)
  qed
qed


theorem sort_priority_devices_stable_partition_witness:
  "well_formed example_table \<and>
   df_rows (sort_priority_devices example_table) =
     [[(''Serial Number'', Missing), (''Device Model'', Text ''iPad'')],
      [(''Serial Number'', Text '' N/A ''), (''Device Model'', Text ''MacBook Pro'')],
      [(''Serial Number'', Text ''b2''), (''Device Model'', Text ''Apple TV'')],
      [(''Serial Number'', Text ''A1''), (''Device Model'', Text ''Dell 5520'')],
      [(''Serial Number'', Other ''12''), (''Device Model'', Missing)],
      [(''Serial Number'', Text ''Serial Number''), (''Device Model'', Text ''Device Model'')]]"
proof -
  have wf: "well_formed example_table" by code_simp
  have "filter is_priority_row (df_rows example_table) @
        filter (\<lambda>r. \<not> is_priority_row r) (df_rows example_table) =
     [[(''Serial Number'', Missing), (''Device Model'', Text ''iPad'')],
      [(''Serial Number'', Text '' N/A ''), (''Device Model'', Text ''MacBook Pro'')],
      [(''Serial Number'', Text ''b2''), (''Device Model'', Text ''Apple TV'')],
      [(''Serial Number'', Text ''A1''), (''Device Model'', Text ''Dell 5520'')],
      [(''Serial Number'', Other ''12''), (''Device Model'', Missing)],
      [(''Serial Number'', Text ''Serial Number''), (''Device Model'', Text ''Device Model'')]]"
    by code_simp
  with sort_priority_devices_stable_partition [OF wf] wf show ?thesis by simp
qed

section \<open>Properties of the canonical schema\<close>

lemma set_column_fresh: "c \<notin> set (df_columns df) \<Longrightarrow> set_column df c vs = df @ [(c, vs)]"
  by (induction df) (auto simp: df_columns_def)

lemma nrows_append_fill: "nrows (df @ [(c, replicate (nrows df) x)]) = nrows df"
  by (cases df) (simp_all add: nrows_def)

lemma ensure_columns_appends:
  "distinct cs \<Longrightarrow>
   ensure_columns cs df =
     df @ map (\<lambda>c. (c, replicate (nrows df) (Text [])))
              (filter (\<lambda>c. c \<notin> set (df_columns df)) cs)"
proof (induction cs arbitrary: df)
  case Nil
  then show ?case by simp
next
  case (Cons c cs)
  then have dist: "distinct cs" and fresh: "c \<notin> set cs" by simp_all
  show ?case
  proof (cases "c \<in> set (df_columns df)")
    case True
    then show ?thesis using Cons.IH [OF dist, of df] by simp
  next
    case False
    let ?df = "df @ [(c, replicate (nrows df) (Text []))]"
    have cols: "filter (\<lambda>x. x \<notin> set (df_columns ?df)) cs =
                filter (\<lambda>x. x \<notin> set (df_columns df)) cs"
      using fresh by (auto simp: df_columns_def intro: filter_cong)
    have "ensure_columns (c # cs) df = ensure_columns cs ?df"
      using False by (simp add: set_column_fresh)
    also have "\<dots> = ?df @ map (\<lambda>c. (c, replicate (nrows ?df) (Text [])))
                             (filter (\<lambda>x. x \<notin> set (df_columns ?df)) cs)"
      by (rule Cons.IH [OF dist])
    finally show ?thesis using False by (simp add: cols nrows_append_fill)
  qed
qed

lemma filter_label_unique:
  "distinct (map fst xs) \<Longrightarrow> map_of xs c = Some v \<Longrightarrow> filter (\<lambda>p. fst p = c) xs = [(c, v)]"
proof (induction xs)
  case Nil
  then show ?case by simp
next
  case (Cons x xs)
  show ?case
  proof (cases "fst x = c")
    case True
    with Cons.prems have "c \<notin> fst ` set xs" and "x = (c, v)" by (auto simp: prod_eq_iff)
    then show ?thesis by (auto simp: filter_empty_conv)
  next
    case False
    with Cons show ?thesis by (cases x) auto
  qed
qed

lemma concat_singletons: "concat (map (\<lambda>c. [g c]) cs) = map g cs"
  by (induction cs) auto

lemma distinct_cols: "distinct cols"
  by (simp add: cols_def)

text \<open>
  C5. Whatever columns the merged table carries, the table after the schema step has
  exactly the ten canonical columns in their fixed order: a column the sources carried is
  kept as it is, a column they did not carry is created and filled with empty text.
\<close>

theorem enforce_schema_canonical:
  assumes dist: "distinct (df_columns final_df)"
  shows "enforce_schema final_df =
         Got (map (\<lambda>c. (c, case map_of final_df c of
                               Some vs \<Rightarrow> vs
                             | None \<Rightarrow> replicate (nrows final_df) (Text [])))
                  cols)"
proof -
  let ?fill = "replicate (nrows final_df) (Text [])"
  let ?new = "filter (\<lambda>c. c \<notin> set (df_columns final_df)) cols"
  let ?extra = "map (\<lambda>c. (c, ?fill)) ?new"
  let ?df = "final_df @ ?extra"
  let ?g = "\<lambda>c. (c, case map_of final_df c of Some vs \<Rightarrow> vs | None \<Rightarrow> ?fill)"
  have ens: "ensure_columns cols final_df = ?df"
    using distinct_cols by (rule ensure_columns_appends)
  have labels: "map fst ?df = df_columns final_df @ ?new"
    by (simp add: df_columns_def comp_def)
  have dist_df: "distinct (map fst ?df)"
    unfolding labels using dist distinct_cols by auto
  have sub: "set cols \<subseteq> set (df_columns ?df)"
    unfolding df_columns_def labels by auto
  have look: "map_of ?df c = Some (snd (?g c))" if "c \<in> set cols" for c
  proof (cases "map_of final_df c")
    case None
    then have "c \<notin> set (df_columns final_df)"
      by (simp add: df_columns_def map_of_eq_None_iff)
    with that have "c \<in> set ?new" by simp
    then have "map_of ?extra c = Some ?fill"
      by (simp add: map_of_map_restrict)
    with None show ?thesis by (simp add: map_add_def)
  next
    case (Some vs)
    then show ?thesis by (simp add: map_add_def)
  qed
  have "map (\<lambda>c. filter (\<lambda>p. fst p = c) ?df) cols = map (\<lambda>c. [?g c]) cols"
  proof (rule map_cong [OF refl])
    fix c assume "c \<in> set cols"
    then have "map_of ?df c = Some (snd (?g c))" by (rule look)
    with dist_df have "filter (\<lambda>p. fst p = c) ?df = [(c, snd (?g c))]"
      by (rule filter_label_unique)
    then show "filter (\<lambda>p. fst p = c) ?df = [?g c]" by simp
  qed
  then have "concat (map (\<lambda>c. filter (\<lambda>p. fst p = c) ?df) cols) = map ?g cols"
    by (simp only: concat_singletons)
  with sub show ?thesis
    by (simp only: enforce_schema_def ens select_columns_def if_True)
qed


theorem enforce_schema_canonical_witness:
  "distinct (df_columns example_table) \<and>
   enforce_schema example_table =
     Got ([(''Serial Number'', column example_table ''Serial Number''),
           (''Device Model'', column example_table ''Device Model'')] @
          map (\<lambda>c. (c, replicate 6 (Text [])))
            [''P.O. Number'', ''Device Owner'', ''Computer Name'', ''Date of Latest Change'',
             ''Changed By'', ''Location'', ''Classification'', ''Comments''])"
proof -
  have dist: "distinct (df_columns example_table)" by code_simp
  have "map (\<lambda>c. (c, case map_of example_table c of
                        Some vs \<Rightarrow> vs
                      | None \<Rightarrow> replicate (nrows example_table) (Text [])))
            cols =
        [(''Serial Number'', column example_table ''Serial Number''),
         (''Device Model'', column example_table ''Device Model'')] @
        map (\<lambda>c. (c, replicate 6 (Text [])))
          [''P.O. Number'', ''Device Owner'', ''Computer Name'', ''Date of Latest Change'',
           ''Changed By'', ''Location'', ''Classification'', ''Comments'']"
    by code_simp
  with enforce_schema_canonical [OF dist] dist show ?thesis by simp
qed

section \<open>Properties of the location sub-pass\<close>








section \<open>Properties of the cross-reference sub-pass\<close>

lemma flag_unknown_map:
  "flag_unknown master_set cells n =
     (map (\<lambda>c. if strip (xl_str (cell_value c)) \<noteq> [] \<and>
                    strip (xl_str (cell_value c)) \<notin> set master_set
                 then c\<lparr>yellow := True\<rparr> else c) cells,
      n + length (filter (\<lambda>c. strip (xl_str (cell_value c)) \<noteq> [] \<and>
                              strip (xl_str (cell_value c)) \<notin> set master_set) cells))"
  by (induction cells arbitrary: n) (simp_all add: Let_def)

text \<open>
  C9. With a reference list, the cross-reference flags exactly the cells whose trimmed
  serial text is non-empty and not in the set, and counts them. When the user skips, picks
  no file or the file cannot be read, no cell is flagged, the count is zero and the check
  is marked as not performed; the report line then reads "Serial Check: Skipped", which no
  count of a performed check, zero included, prints.
\<close>

theorem check_serials_flags_unknown:
  fixes masters :: "cell list" and cells :: "xl_cell list"
  defines "master_set \<equiv> map (\<lambda>v. strip (astype_str v)) masters"
  defines "unknown \<equiv> \<lambda>c. strip (xl_str (cell_value c)) \<noteq> [] \<and>
                          strip (xl_str (cell_value c)) \<notin> set master_set"
  shows "check_serials (Masters masters) cells =
           \<lparr>checked_cells = map (\<lambda>c. if unknown c then c\<lparr>yellow := True\<rparr> else c) cells,
            missing_serials = length (filter unknown cells),
            check_performed = True\<rparr> \<and>
         check_serials Skip cells =
           \<lparr>checked_cells = cells, missing_serials = 0, check_performed = False\<rparr> \<and>
         check_serials NoFile cells =
           \<lparr>checked_cells = cells, missing_serials = 0, check_performed = False\<rparr> \<and>
         check_serials Unreadable cells =
           \<lparr>checked_cells = cells, missing_serials = 0, check_performed = False\<rparr> \<and>
         serial_report_line (check_serials Skip cells) = ''Serial Check: Skipped'' \<and>
         serial_report_line (check_serials NoFile cells) = ''Serial Check: Skipped'' \<and>
         serial_report_line (check_serials Unreadable cells) = ''Serial Check: Skipped'' \<and>
         serial_report_line (check_serials (Masters masters) cells) =
           ''Unknown Serials: '' @ decimal (length (filter unknown cells)) \<and>
         serial_report_line (check_serials (Masters masters) cells) \<noteq> ''Serial Check: Skipped''"
  unfolding master_set_def unknown_def
  by (simp add: check_serials_def flag_unknown_map serial_report_line_def)

theorem check_serials_flags_unknown_witness:
  "check_serials (Masters [Text ''SN001'', Text ''SN002''])
     [plain_cell (XText ''SN001''), plain_cell (XText ''SN003'')] =
     \<lparr>checked_cells = [\<lparr>cell_value = XText ''SN001'', yellow = False\<rparr>,
                       \<lparr>cell_value = XText ''SN003'', yellow = True\<rparr>],
      missing_serials = 1, check_performed = True\<rparr> \<and>
   serial_report_line (check_serials Skip
     [plain_cell (XText ''SN001''), plain_cell (XText ''SN003'')]) = ''Serial Check: Skipped'' \<and>
   serial_report_line (check_serials (Masters [Text ''SN001'', Text ''SN003''])
     [plain_cell (XText ''SN001''), plain_cell (XText ''SN003'')]) = ''Unknown Serials: 0''"
proof -
  let ?cells = "[plain_cell (XText ''SN001''), plain_cell (XText ''SN003'')]"
  have a: "map (\<lambda>c. if strip (xl_str (cell_value c)) \<noteq> [] \<and>
                strip (xl_str (cell_value c)) \<notin>
                  set (map (\<lambda>v. strip (astype_str v)) [Text ''SN001'', Text ''SN002''])
              then c\<lparr>yellow := True\<rparr> else c) ?cells =
           [\<lparr>cell_value = XText ''SN001'', yellow = False\<rparr>,
            \<lparr>cell_value = XText ''SN003'', yellow = True\<rparr>]"
    by code_simp
  have b: "length (filter (\<lambda>c. strip (xl_str (cell_value c)) \<noteq> [] \<and>
                strip (xl_str (cell_value c)) \<notin>
                  set (map (\<lambda>v. strip (astype_str v)) [Text ''SN001'', Text ''SN002''])) ?cells) = 1"
    by code_simp
  have c: "''Unknown Serials: '' @
           decimal (length (filter (\<lambda>c. strip (xl_str (cell_value c)) \<noteq> [] \<and>
                strip (xl_str (cell_value c)) \<notin>
                  set (map (\<lambda>v. strip (astype_str v)) [Text ''SN001'', Text ''SN003''])) ?cells)) =
           ''Unknown Serials: 0''"
    by code_simp
  note t1 = check_serials_flags_unknown [of "[Text ''SN001'', Text ''SN002'']" ?cells]
  note t2 = check_serials_flags_unknown [of "[Text ''SN001'', Text ''SN003'']" ?cells]
  have p1: "check_serials (Masters [Text ''SN001'', Text ''SN002'']) ?cells =
     \<lparr>checked_cells = [\<lparr>cell_value = XText ''SN001'', yellow = False\<rparr>,
                       \<lparr>cell_value = XText ''SN003'', yellow = True\<rparr>],
      missing_serials = 1, check_performed = True\<rparr>"
    using t1 [THEN conjunct1] unfolding a b .
  have p2: "serial_report_line (check_serials Skip ?cells) = ''Serial Check: Skipped''"
    using t1 by (elim conjE)
  have p3: "serial_report_line (check_serials (Masters [Text ''SN001'', Text ''SN003'']) ?cells) =
            ''Unknown Serials: 0''"
    using t2 unfolding c by (elim conjE)
  from p1 p2 p3 show ?thesis by (intro conjI)
qed

section \<open>Properties of the loop over the input directory\<close>









section \<open>Properties of the workflow record\<close>

text \<open>
  C3, as stated, fails: the guard before the record is built tests the serial against
  \<open>'nan'\<close>, \<open>'none'\<close> and \<open>''\<close> only. A message whose body gives the serial \<open>N/A\<close>, a junk
  value of RowValidator, has its record appended and counted.
\<close>

theorem workflow_step_junk_serial_counted:
  "contains (lower WORKFLOW_SUBJECT_KEY) (lower (''FW: '' @ WORKFLOW_SUBJECT_KEY)) \<and>
   extract_field ''Serial Number: N/A'' ''Serial Number'' = Some ''N/A'' \<and>
   lower (strip ''N/A'') \<in> set junk_serials \<and>
   workflow_data (snd (workflow_step example_junk_message initial)) =
     [workflow_record ''N/A'' ''Serial Number: N/A'' ''Bo Jones''] \<and>
   entries_created (stats (snd (workflow_step example_junk_message initial))) = 1"
  by code_simp

text \<open>
  C3, amended. For a message whose subject contains the marker: when no serial is
  extracted, or the extracted serial lowercased is \<open>'nan'\<close>, \<open>'none'\<close> or empty, no workflow
  record is created and \<open>entries_created\<close> is not incremented. A message appends at most
  one workflow record, and \<open>entries_created\<close> grows by the number of records appended.
\<close>

theorem workflow_step_guard:
  assumes subj: "subject msg = Got sj"
    and marker: "contains (lower WORKFLOW_SUBJECT_KEY) (lower (or_default sj []))"
    and bd: "body msg = Got bd"
    and serial: "serial = extract_field (or_default bd []) ''Serial Number''"
  shows "(serial = None \<or> lower (py_str serial) \<in> {''nan'', ''none'', []} \<longrightarrow>
            workflow_data (snd (workflow_step msg st)) = workflow_data st \<and>
            entries_created (stats (snd (workflow_step msg st))) = entries_created (stats st) \<and>
            fst (workflow_step msg st) = Got False) \<and>
         (\<exists>recs. workflow_data (snd (workflow_step msg st)) = workflow_data st @ recs \<and>
                 length recs \<le> 1 \<and>
                 entries_created (stats (snd (workflow_step msg st))) =
                   entries_created (stats st) + length recs)"
proof (rule conjI)
  show "serial = None \<or> lower (py_str serial) \<in> {''nan'', ''none'', []} \<longrightarrow>
            workflow_data (snd (workflow_step msg st)) = workflow_data st \<and>
            entries_created (stats (snd (workflow_step msg st))) = entries_created (stats st) \<and>
            fst (workflow_step msg st) = Got False"
  proof (rule impI)
  assume "serial = None \<or> lower (py_str serial) \<in> {''nan'', ''none'', []}"
  then have "\<not> (truthy serial \<and> lower (py_str serial) \<notin> set [''nan'', ''none'', []])"
    by (auto simp: truthy_def)
  then show "workflow_data (snd (workflow_step msg st)) = workflow_data st \<and>
            entries_created (stats (snd (workflow_step msg st))) = entries_created (stats st) \<and>
            fst (workflow_step msg st) = Got False"
    using subj marker bd serial by (simp add: workflow_step_def Let_def)
  qed
next
  show "\<exists>recs. workflow_data (snd (workflow_step msg st)) = workflow_data st @ recs \<and>
                 length recs \<le> 1 \<and>
                 entries_created (stats (snd (workflow_step msg st))) =
                   entries_created (stats st) + length recs"
  proof (cases "truthy serial \<and> lower (py_str serial) \<notin> set [''nan'', ''none'', []]")
    case True
    then have "workflow_data (snd (workflow_step msg st)) =
                 workflow_data st @ [workflow_record (py_str serial) (or_default bd []) (sender msg)] \<and>
               entries_created (stats (snd (workflow_step msg st))) =
                 entries_created (stats st) + 1"
      using subj marker bd serial by (simp add: workflow_step_def Let_def)
    then show ?thesis by (intro exI [of _ "[workflow_record (py_str serial) (or_default bd []) (sender msg)]"]) simp
  next
    case False
    then have "workflow_data (snd (workflow_step msg st)) = workflow_data st \<and>
               entries_created (stats (snd (workflow_step msg st))) = entries_created (stats st)"
      using subj marker bd serial by (simp add: workflow_step_def Let_def)
    then show ?thesis by (intro exI [of _ "[]"]) simp
  qed
qed


theorem workflow_step_guard_witness:
  "workflow_data (snd (workflow_step example_nan_message initial)) = [] \<and>
   entries_created (stats (snd (workflow_step example_nan_message initial))) = 0 \<and>
   fst (workflow_step example_nan_message initial) = Got False"
proof -
  have s: "subject example_nan_message = Got (Some (''FW: '' @ WORKFLOW_SUBJECT_KEY))"
    by (simp add: example_nan_message_def)
  have m: "contains (lower WORKFLOW_SUBJECT_KEY)
             (lower (or_default (Some (''FW: '' @ WORKFLOW_SUBJECT_KEY)) []))"
    by code_simp
  have b: "body example_nan_message = Got (Some ''Serial Number: NaN'')"
    by (simp add: example_nan_message_def)
  have h: "extract_field (or_default (Some ''Serial Number: NaN'') []) ''Serial Number'' = None \<or>
           lower (py_str (extract_field (or_default (Some ''Serial Number: NaN'') [])
                            ''Serial Number'')) \<in> {''nan'', ''none'', []}"
    by code_simp
  from workflow_step_guard [OF s m b refl, of initial] h
  have "workflow_data (snd (workflow_step example_nan_message initial)) = workflow_data initial \<and>
        entries_created (stats (snd (workflow_step example_nan_message initial))) =
          entries_created (stats initial) \<and>
        fst (workflow_step example_nan_message initial) = Got False"
    by blast
  then show ?thesis by (simp add: initial_def)
qed

section \<open>Properties of DateNormalizer\<close>

text \<open>
  C2, as stated, fails: the conversion is called with \<open>errors='coerce'\<close>, so a text that is
  no date becomes \<open>NaT\<close> and \<open>strftime\<close> leaves \<open>NaN\<close> in its place. The value \<open>TBD\<close> does not
  survive.
\<close>

theorem format_date_columns_replaces_unparsed:
  "to_datetime_mdY [Text ''01/15/2024'', Text ''TBD''] =
     Got [Some \<lparr>ts_year = 2024, ts_month = 1, ts_day = 15\<rparr>, None] \<and>
   format_date_columns to_datetime_mdY example_dates =
     [(''Serial Number'', [Text ''A1'', Text ''B2'']),
      (''Date of Latest Change'', [Text ''01/15/2024'', Missing])]"
  by code_simp

lemma labels_set_column:
  "map fst (set_column df c vs) = (if c \<in> fst ` set df then map fst df else map fst df @ [c])"
proof (induction df)
  case Nil
  then show ?case by simp
next
  case (Cons col df)
  obtain n ws where col: "col = (n, ws)" by (cases col)
  show ?case
  proof (cases "n = c")
    case True
    then show ?thesis by (simp add: col)
  next
    case False
    then have "c \<in> fst ` set (col # df) \<longleftrightarrow> c \<in> fst ` set df"
      by (auto simp: col)
    with False Cons.IH show ?thesis by (simp add: col)
  qed
qed

lemma df_columns_set_column:
  "c \<in> set (df_columns df) \<Longrightarrow> df_columns (set_column df c vs) = df_columns df"
  by (simp add: df_columns_def labels_set_column)

lemma map_of_set_column: "map_of (set_column df c vs) = (map_of df)(c \<mapsto> vs)"
  by (induction df) (auto simp: fun_eq_iff)

lemma is_digit_digit: "is_digit (digit n)"
  unfolding is_digit_def digit_def by (rule nth_mem) simp

lemma decimal_small: "n < 10 \<Longrightarrow> decimal n = [digit n]"
  by (subst decimal.simps) simp

lemma decimal_large: "10 \<le> n \<Longrightarrow> decimal n = decimal (n div 10) @ [digit n]"
  by (subst decimal.simps) simp

lemma zfill2_two_digits:
  assumes "n < 100"
  shows "\<exists>a b. zfill 2 (decimal n) = [a, b] \<and> is_digit a \<and> is_digit b"
proof (cases "n < 10")
  case True
  then have "zfill 2 (decimal n) = [CHR ''0'', digit n]"
    by (simp add: decimal_small zfill_def)
  moreover have "is_digit (CHR ''0'')" by (simp add: is_digit_def)
  ultimately show ?thesis using is_digit_digit by blast
next
  case False
  with assms have a: "10 \<le> n" and b: "n div 10 < 10" by simp_all
  have "decimal n = [digit (n div 10), digit n]"
    by (simp only: decimal_large [OF a] decimal_small [OF b] append.simps)
  then have "zfill 2 (decimal n) = [digit (n div 10), digit n]"
    by (simp add: zfill_def)
  then show ?thesis using is_digit_digit by blast
qed

lemma decimal_four_digits:
  assumes "1000 \<le> n" and "n \<le> 9999"
  shows "\<exists>a b c d. decimal n = [a, b, c, d] \<and> is_digit a \<and> is_digit b \<and> is_digit c \<and> is_digit d"
proof -
  from assms have a: "10 \<le> n" and b: "10 \<le> n div 10" and c: "10 \<le> n div 10 div 10"
    and d: "n div 10 div 10 div 10 < 10"
    by simp_all
  have "decimal n = [digit (n div 10 div 10 div 10), digit (n div 10 div 10),
                     digit (n div 10), digit n]"
    by (simp only: decimal_large [OF a] decimal_large [OF b] decimal_large [OF c]
          decimal_small [OF d] append.simps)
  then show ?thesis using is_digit_digit by blast
qed

lemma strftime_is_mdY:
  assumes "1000 \<le> ts_year st" "ts_year st \<le> 9999" "ts_month st \<le> 12" "ts_day st \<le> 31"
  shows "is_mdY (strftime DATE_FMT st)"
proof -
  from assms(3) obtain m1 m2 where m: "zfill 2 (decimal (ts_month st)) = [m1, m2]"
      "is_digit m1" "is_digit m2"
    using zfill2_two_digits [of "ts_month st"] by auto
  from assms(4) obtain d1 d2 where d: "zfill 2 (decimal (ts_day st)) = [d1, d2]"
      "is_digit d1" "is_digit d2"
    using zfill2_two_digits [of "ts_day st"] by auto
  from assms(1,2) obtain y1 y2 y3 y4 where y: "decimal (ts_year st) = [y1, y2, y3, y4]"
      "is_digit y1" "is_digit y2" "is_digit y3" "is_digit y4"
    using decimal_four_digits [of "ts_year st"] by auto
  have "strftime DATE_FMT st = [m1, m2, CHR ''/'', d1, d2, CHR ''/'', y1, y2, y3, y4]"
    by (simp add: DATE_FMT_def m d y)
  then show ?thesis using m d y by (simp add: is_mdY_def)
qed

text \<open>
  C2, amended. The normalizer never raises. A frame without the date column stays as it
  is; when the conversion of the column raises, the whole frame stays as it is; otherwise
  the labels and every other column are kept, and in the date column every value the
  conversion parsed is written by \<open>strftime\<close> with \<open>%m/%d/%Y\<close> and every value it did not
  parse is replaced by the missing value. For a timestamp with a four-digit year the text
  written has the pattern month/day/4-digit year.
\<close>

theorem format_date_columns_coerces:
  "(DATE_COL \<notin> set (df_columns df) \<longrightarrow> format_date_columns to_datetime df = df) \<and>
   (map_of df DATE_COL = Some vs \<and> to_datetime vs = Raised \<longrightarrow>
      format_date_columns to_datetime df = df) \<and>
   (map_of df DATE_COL = Some vs \<and> to_datetime vs = Got ts \<longrightarrow>
      df_columns (format_date_columns to_datetime df) = df_columns df \<and>
      map_of (format_date_columns to_datetime df) DATE_COL =
        Some (map (\<lambda>t. case t of None \<Rightarrow> Missing
                               | Some st \<Rightarrow> Text (strftime DATE_FMT st)) ts) \<and>
      (\<forall>c. c \<noteq> DATE_COL \<longrightarrow>
           map_of (format_date_columns to_datetime df) c = map_of df c)) \<and>
   (1000 \<le> ts_year st \<and> ts_year st \<le> 9999 \<and> ts_month st \<le> 12 \<and> ts_day st \<le> 31 \<longrightarrow>
      is_mdY (strftime DATE_FMT st))"
proof (intro conjI)
  show "DATE_COL \<notin> set (df_columns df) \<longrightarrow> format_date_columns to_datetime df = df"
    by (simp add: format_date_columns_def format_date_column_def DATE_COL_def)
  show "map_of df DATE_COL = Some vs \<and> to_datetime vs = Raised \<longrightarrow>
      format_date_columns to_datetime df = df"
    by (simp add: format_date_columns_def format_date_column_def DATE_COL_def)
  show "map_of df DATE_COL = Some vs \<and> to_datetime vs = Got ts \<longrightarrow>
      df_columns (format_date_columns to_datetime df) = df_columns df \<and>
      map_of (format_date_columns to_datetime df) DATE_COL =
        Some (map (\<lambda>t. case t of None \<Rightarrow> Missing
                               | Some st \<Rightarrow> Text (strftime DATE_FMT st)) ts) \<and>
      (\<forall>c. c \<noteq> DATE_COL \<longrightarrow>
           map_of (format_date_columns to_datetime df) c = map_of df c)"
  proof (rule impI)
    assume h: "map_of df DATE_COL = Some vs \<and> to_datetime vs = Got ts"
    then have "(DATE_COL, vs) \<in> set df" by (auto dest: map_of_SomeD)
    then have present: "DATE_COL \<in> set (df_columns df)"
      by (force simp: df_columns_def)
    let ?new = "map (\<lambda>t. case t of None \<Rightarrow> Missing
                               | Some st \<Rightarrow> Text (strftime DATE_FMT st)) ts"
    have res: "format_date_columns to_datetime df = set_column df DATE_COL ?new"
      using h present
      by (simp add: format_date_columns_def format_date_column_def DATE_COL_def)
    show "df_columns (format_date_columns to_datetime df) = df_columns df \<and>
      map_of (format_date_columns to_datetime df) DATE_COL = Some ?new \<and>
      (\<forall>c. c \<noteq> DATE_COL \<longrightarrow>
           map_of (format_date_columns to_datetime df) c = map_of df c)"
      unfolding res using present
      by (simp add: df_columns_set_column map_of_set_column)
  qed
  show "1000 \<le> ts_year st \<and> ts_year st \<le> 9999 \<and> ts_month st \<le> 12 \<and> ts_day st \<le> 31 \<longrightarrow>
      is_mdY (strftime DATE_FMT st)"
    by (simp add: strftime_is_mdY)
qed

theorem format_date_columns_coerces_witness:
  "format_date_columns to_datetime_mdY example_table = example_table \<and>
   format_date_columns (\<lambda>vs. Raised) example_dates = example_dates \<and>
   map_of (format_date_columns to_datetime_mdY example_dates) DATE_COL =
     Some [Text ''01/15/2024'', Missing] \<and>
   is_mdY (strftime DATE_FMT \<lparr>ts_year = 2024, ts_month = 1, ts_day = 15\<rparr>)"
proof -
  let ?vs = "[Text ''01/15/2024'', Text ''TBD'']"
  let ?st = "\<lparr>ts_year = 2024, ts_month = 1, ts_day = 15\<rparr>"
  let ?ts = "[Some ?st, None]"
  have absent: "DATE_COL \<notin> set (df_columns example_table)" by code_simp
  have col: "map_of example_dates DATE_COL = Some ?vs" by code_simp
  have parsed: "to_datetime_mdY ?vs = Got ?ts" by code_simp
  have valid: "1000 \<le> ts_year ?st \<and> ts_year ?st \<le> 9999 \<and> ts_month ?st \<le> 12 \<and>
               ts_day ?st \<le> 31"
    by simp
  have shown: "map (\<lambda>t. case t of None \<Rightarrow> Missing | Some st \<Rightarrow> Text (strftime DATE_FMT st)) ?ts =
              [Text ''01/15/2024'', Missing]"
    by code_simp
  from format_date_columns_coerces [where df = example_table and to_datetime = to_datetime_mdY] absent
  have a: "format_date_columns to_datetime_mdY example_table = example_table"
    by blast
  from format_date_columns_coerces [where df = example_dates and vs = ?vs and to_datetime = "\<lambda>vs. Raised"] col
  have b: "format_date_columns (\<lambda>vs. Raised) example_dates = example_dates"
    by blast
  from format_date_columns_coerces [where df = example_dates and vs = ?vs and to_datetime = to_datetime_mdY
         and ts = ?ts and st = ?st] col parsed
  have "map_of (format_date_columns to_datetime_mdY example_dates) DATE_COL =
        Some (map (\<lambda>t. case t of None \<Rightarrow> Missing | Some st \<Rightarrow> Text (strftime DATE_FMT st)) ?ts)"
    by blast
  then have c: "map_of (format_date_columns to_datetime_mdY example_dates) DATE_COL =
        Some [Text ''01/15/2024'', Missing]"
    unfolding shown .
  from format_date_columns_coerces [where df = example_dates and vs = ?vs and to_datetime = to_datetime_mdY
         and ts = ?ts and st = ?st] valid
  have d: "is_mdY (strftime DATE_FMT ?st)"
    by blast
  from a b c d show ?thesis by (intro conjI)
qed

section \<open>Properties of the date-outlier sub-pass\<close>

lemma collect_dates_map_filter:
  "collect_dates ym cells = List.map_filter (\<lambda>c. ym (cell_value c)) cells"
  by (induction cells) (auto split: option.splits)

lemma flag_outliers_map:
  "flag_outliers ym mode_ym cells n =
     (map (\<lambda>c. case ym (cell_value c) of
                  None \<Rightarrow> c
                | Some k \<Rightarrow> if k \<noteq> mode_ym then c\<lparr>yellow := True\<rparr> else c) cells,
      n + length (filter (\<lambda>c. case ym (cell_value c) of
                                None \<Rightarrow> False
                              | Some k \<Rightarrow> k \<noteq> mode_ym) cells))"
  by (induction cells arbitrary: n) (auto split: option.splits)

lemma counter_add_keys:
  "map fst (counter_add k c) = (if k \<in> fst ` set c then map fst c else map fst c @ [k])"
proof (induction c)
  case Nil
  then show ?case by simp
next
  case (Cons kv c)
  obtain k' n where kv: "kv = (k', n)" by (cases kv)
  show ?case
  proof (cases "k = k'")
    case True
    then show ?thesis by (simp add: kv)
  next
    case False
    then have "k \<in> fst ` set (kv # c) \<longleftrightarrow> k \<in> fst ` set c"
      by (auto simp: kv)
    with False Cons.IH show ?thesis by (simp add: kv)
  qed
qed

lemma counter_add_entries:
  "distinct (map fst c) \<Longrightarrow> (k', n) \<in> set (counter_add k c) \<Longrightarrow>
     (k' = k \<and> (n = 1 \<and> k \<notin> fst ` set c \<or> (\<exists>m. (k, m) \<in> set c \<and> n = m + 1))) \<or>
     (k' \<noteq> k \<and> (k', n) \<in> set c)"
proof (induction c)
  case Nil
  then show ?case by simp
next
  case (Cons kv c)
  obtain k0 n0 where kv: "kv = (k0, n0)" by (cases kv)
  from Cons.prems(1) have fresh: "k0 \<notin> fst ` set c" and dist: "distinct (map fst c)"
    by (simp_all add: kv)
  show ?case
  proof (cases "k = k0")
    case True
    with Cons.prems(2) have "(k', n) = (k0, n0 + 1) \<or> (k', n) \<in> set c"
      by (simp add: kv)
    then show ?thesis
    proof
      assume "(k', n) = (k0, n0 + 1)"
      with True show ?thesis by (auto simp: kv)
    next
      assume mem: "(k', n) \<in> set c"
      with fresh have "k' \<noteq> k0" by force
      with True mem show ?thesis by (simp add: kv)
    qed
  next
    case False
    with Cons.prems(2) have "(k', n) = (k0, n0) \<or> (k', n) \<in> set (counter_add k c)"
      by (simp add: kv)
    then show ?thesis
    proof
      assume "(k', n) = (k0, n0)"
      with False show ?thesis by (simp add: kv)
    next
      assume "(k', n) \<in> set (counter_add k c)"
      from Cons.IH [OF dist this] False show ?thesis by (force simp: kv)
    qed
  qed
qed

lemma Counter_snoc: "Counter (xs @ [x]) = counter_add x (Counter xs)"
  by (simp add: Counter_def)

lemma Counter_keys: "fst ` set (Counter xs) = set xs"
proof (induction xs rule: rev_induct)
  case Nil
  then show ?case by (simp add: Counter_def)
next
  case (snoc x xs)
  have "set (map fst (Counter (xs @ [x]))) = insert x (set (map fst (Counter xs)))"
    unfolding Counter_snoc counter_add_keys by auto
  with snoc show ?case by simp
qed

lemma Counter_distinct: "distinct (map fst (Counter xs))"
proof (induction xs rule: rev_induct)
  case Nil
  then show ?case by (simp add: Counter_def)
next
  case (snoc x xs)
  then show ?case by (simp add: Counter_snoc counter_add_keys)
qed

lemma Counter_counts: "(k, n) \<in> set (Counter xs) \<Longrightarrow> n = count_list xs k"
proof (induction xs arbitrary: k n rule: rev_induct)
  case Nil
  then show ?case by (simp add: Counter_def)
next
  case (snoc x xs)
  from snoc.prems have "(k, n) \<in> set (counter_add x (Counter xs))"
    by (simp add: Counter_snoc)
  from counter_add_entries [OF Counter_distinct this]
  show ?case
  proof (elim disjE conjE exE)
    assume "k = x" "n = 1" "x \<notin> fst ` set (Counter xs)"
    then show ?thesis by (simp add: Counter_keys)
  next
    fix m assume "k = x" "(x, m) \<in> set (Counter xs)" "n = m + 1"
    with snoc.IH [of x m] show ?thesis by simp
  next
    assume "k \<noteq> x" "(k, n) \<in> set (Counter xs)"
    with snoc.IH [of k n] show ?thesis by simp
  qed
qed

lemma Counter_order:
  "sorted_wrt (\<lambda>a b. length (takeWhile (\<lambda>x. x \<noteq> a) xs) < length (takeWhile (\<lambda>x. x \<noteq> b) xs))
     (map fst (Counter xs))"
proof (induction xs rule: rev_induct)
  case Nil
  then show ?case by (simp add: Counter_def)
next
  case (snoc x xs)
  let ?K = "map fst (Counter xs)"
  have keys: "set ?K = set xs" using Counter_keys [of xs] by simp
  have old: "length (takeWhile (\<lambda>y. y \<noteq> a) (xs @ [x])) = length (takeWhile (\<lambda>y. y \<noteq> a) xs)"
    if "a \<in> set xs" for a
    using that by (simp add: takeWhile_append1)
  have kept: "sorted_wrt (\<lambda>a b. length (takeWhile (\<lambda>y. y \<noteq> a) (xs @ [x])) <
                               length (takeWhile (\<lambda>y. y \<noteq> b) (xs @ [x]))) ?K"
    by (rule sorted_wrt_mono_rel [OF _ snoc.IH]) (simp add: Counter_keys old)
  show ?case
  proof (cases "x \<in> set xs")
    case True
    then have "map fst (Counter (xs @ [x])) = ?K"
      using Counter_keys [of xs] by (simp add: Counter_snoc counter_add_keys)
    with kept show ?thesis by simp
  next
    case False
    then have K': "map fst (Counter (xs @ [x])) = ?K @ [x]"
      using Counter_keys [of xs] by (simp add: Counter_snoc counter_add_keys)
    have "takeWhile (\<lambda>y. y \<noteq> x) (xs @ [x]) = xs @ takeWhile (\<lambda>y. y \<noteq> x) [x]"
      by (rule takeWhile_append2) (use False in auto)
    then have new: "length (takeWhile (\<lambda>y. y \<noteq> x) (xs @ [x])) = length xs"
      by simp
    have lt: "length (takeWhile (\<lambda>y. y \<noteq> a) (xs @ [x])) <
              length (takeWhile (\<lambda>y. y \<noteq> x) (xs @ [x]))"
      if "a \<in> set ?K" for a
    proof -
      from that keys have mem: "a \<in> set xs" by simp
      then have "takeWhile (\<lambda>y. y \<noteq> a) xs \<noteq> xs" by auto
      then have "length (takeWhile (\<lambda>y. y \<noteq> a) xs) \<noteq> length xs"
        by (metis takeWhile_eq_take take_all_iff order_refl)
      with length_takeWhile_le [of "\<lambda>y. y \<noteq> a" xs]
      have "length (takeWhile (\<lambda>y. y \<noteq> a) xs) < length xs" by simp
      then show ?thesis unfolding old [OF mem] new .
    qed
    show ?thesis
      unfolding K' sorted_wrt_append
    proof (intro conjI ballI)
      show "sorted_wrt (\<lambda>a b. length (takeWhile (\<lambda>y. y \<noteq> a) (xs @ [x])) <
                               length (takeWhile (\<lambda>y. y \<noteq> b) (xs @ [x]))) ?K"
        by (rule kept)
      show "sorted_wrt (\<lambda>a b. length (takeWhile (\<lambda>y. y \<noteq> a) (xs @ [x])) <
                               length (takeWhile (\<lambda>y. y \<noteq> b) (xs @ [x]))) [x]"
        by simp
      fix a b assume a: "a \<in> set ?K" and "b \<in> set [x]"
      then have b: "b = x" by simp
      show "length (takeWhile (\<lambda>y. y \<noteq> a) (xs @ [x])) <
            length (takeWhile (\<lambda>y. y \<noteq> b) (xs @ [x]))"
        unfolding b by (rule lt [OF a])
    qed
  qed
qed

lemma max_by_count_first:
  assumes "D = pre @ b # post" and "\<forall>p \<in> set pre. snd p < snd b"
    and "\<forall>p \<in> set post. snd p \<le> snd b"
  shows "\<exists>pre' post'. D @ rest = pre' @ max_by_count b rest # post' \<and>
           (\<forall>p \<in> set pre'. snd p < snd (max_by_count b rest)) \<and>
           (\<forall>p \<in> set post'. snd p \<le> snd (max_by_count b rest))"
  using assms
proof (induction rest arbitrary: D b pre post)
  case Nil
  then show ?case by auto
next
  case (Cons kv rest)
  show ?case
  proof (cases "snd b < snd kv")
    case True
    have "D @ [kv] = D @ kv # []" by simp
    moreover have "\<forall>p \<in> set D. snd p < snd kv"
      using Cons.prems True by auto
    ultimately have "\<exists>pre' post'. (D @ [kv]) @ rest = pre' @ max_by_count kv rest # post' \<and>
           (\<forall>p \<in> set pre'. snd p < snd (max_by_count kv rest)) \<and>
           (\<forall>p \<in> set post'. snd p \<le> snd (max_by_count kv rest))"
      by (intro Cons.IH [of "D @ [kv]" D kv "[]"]) simp_all
    with True show ?thesis by simp
  next
    case False
    have "D @ [kv] = pre @ b # (post @ [kv])" using Cons.prems(1) by simp
    moreover have "\<forall>p \<in> set (post @ [kv]). snd p \<le> snd b"
      using Cons.prems(3) False by auto
    ultimately have "\<exists>pre' post'. (D @ [kv]) @ rest = pre' @ max_by_count b rest # post' \<and>
           (\<forall>p \<in> set pre'. snd p < snd (max_by_count b rest)) \<and>
           (\<forall>p \<in> set post'. snd p \<le> snd (max_by_count b rest))"
      using Cons.prems(2) by (intro Cons.IH [of "D @ [kv]" pre b "post @ [kv]"]) simp_all
    with False show ?thesis by simp
  qed
qed

lemma most_common1_mode:
  assumes "xs \<noteq> []"
  shows "\<exists>m. most_common1 (Counter xs) = [(m, count_list xs m)] \<and> m \<in> set xs \<and>
           (\<forall>k \<in> set xs. count_list xs k \<le> count_list xs m) \<and>
           (\<forall>k \<in> set xs. count_list xs k = count_list xs m \<longrightarrow>
              length (takeWhile (\<lambda>x. x \<noteq> m) xs) \<le> length (takeWhile (\<lambda>x. x \<noteq> k) xs))"
proof -
  from assms Counter_keys [of xs] obtain kv kvs where C: "Counter xs = kv # kvs"
    by (cases "Counter xs") auto
  let ?best = "max_by_count kv kvs"
  from max_by_count_first [of "[kv]" "[]" kv "[]" kvs]
  obtain pre post where split: "Counter xs = pre @ ?best # post"
    and before: "\<forall>p \<in> set pre. snd p < snd ?best"
    and after: "\<forall>p \<in> set post. snd p \<le> snd ?best"
    unfolding C by auto
  obtain m c where best: "?best = (m, c)" by (cases ?best)
  from split best have mem: "(m, c) \<in> set (Counter xs)" by simp
  then have c: "c = count_list xs m" by (rule Counter_counts)
  from mem Counter_keys [of xs] have m_in: "m \<in> set xs" by force
  have entry: "\<exists>p \<in> set (Counter xs). fst p = k \<and> snd p = count_list xs k"
    if "k \<in> set xs" for k
  proof -
    from that Counter_keys [of xs] obtain n where "(k, n) \<in> set (Counter xs)" by force
    moreover from this have "n = count_list xs k" by (rule Counter_counts)
    ultimately show ?thesis by force
  qed
  have le: "count_list xs k \<le> count_list xs m" if "k \<in> set xs" for k
  proof -
    from entry [OF that] obtain p where p: "p \<in> set (Counter xs)" "snd p = count_list xs k"
      by blast
    from p(1) split before after best have "snd p \<le> c" by fastforce
    with p(2) c show ?thesis by simp
  qed
  have order: "sorted_wrt (\<lambda>a b. length (takeWhile (\<lambda>x. x \<noteq> a) xs) <
                                   length (takeWhile (\<lambda>x. x \<noteq> b) xs))
                 (map fst pre @ m # map fst post)"
    using Counter_order [of xs] by (simp add: split best)
  have first: "length (takeWhile (\<lambda>x. x \<noteq> m) xs) \<le> length (takeWhile (\<lambda>x. x \<noteq> k) xs)"
    if "k \<in> set xs" and eq: "count_list xs k = count_list xs m" for k
  proof -
    from entry [OF that(1)] obtain p where p: "p \<in> set (Counter xs)" "fst p = k"
      "snd p = count_list xs k"
      by blast
    from p(1) split have "p \<in> set pre \<or> p = ?best \<or> p \<in> set post" by auto
    then show ?thesis
    proof (elim disjE)
      assume "p \<in> set pre"
      with before best have "snd p < c" by auto
      with p(3) eq c show ?thesis by simp
    next
      assume "p = ?best"
      with p(2) best show ?thesis by simp
    next
      assume "p \<in> set post"
      with p(2) have "k \<in> set (map fst post)" by force
      with order show ?thesis by (auto simp: sorted_wrt_append)
    qed
  qed
  from C best c have "most_common1 (Counter xs) = [(m, count_list xs m)]"
    by (simp add: most_common1_def)
  with m_in le first show ?thesis by blast
qed

text \<open>
  For every outcome of the parse: \<open>dates\<close> are the pairs of the values whose \<open>try\<close> block
  does not raise, in row order. With no such value the sub-pass is skipped: no flag, a
  count of zero, no exception. Otherwise the sub-pass returns, and there is a consensus
  pair: a most frequent pair of \<open>dates\<close>, the one met first among those of the highest
  count. Exactly the cells whose value gives another pair are flagged and counted; a cell
  whose \<open>try\<close> block raises is left alone.
\<close>

lemma date_pass_consensus:
  fixes ym :: "xl_value \<Rightarrow> 'k option" and cells :: "xl_cell list"
  defines "dates \<equiv> List.map_filter (\<lambda>c. ym (cell_value c)) cells"
  shows "(dates = [] \<longrightarrow> date_pass ym cells = Got (cells, 0)) \<and>
         (dates \<noteq> [] \<longrightarrow>
            (\<exists>mode_ym.
               date_pass ym cells =
                 Got (map (\<lambda>c. case ym (cell_value c) of
                                   None \<Rightarrow> c
                                 | Some k \<Rightarrow> if k \<noteq> mode_ym then c\<lparr>yellow := True\<rparr> else c)
                          cells,
                      length (filter (\<lambda>c. case ym (cell_value c) of
                                             None \<Rightarrow> False
                                           | Some k \<Rightarrow> k \<noteq> mode_ym) cells)) \<and>
               mode_ym \<in> set dates \<and>
               (\<forall>k \<in> set dates. count_list dates k \<le> count_list dates mode_ym) \<and>
               (\<forall>k \<in> set dates. count_list dates k = count_list dates mode_ym \<longrightarrow>
                  length (takeWhile (\<lambda>x. x \<noteq> mode_ym) dates) \<le>
                  length (takeWhile (\<lambda>x. x \<noteq> k) dates))))"
proof (intro conjI impI)
  assume "dates = []"
  then show "date_pass ym cells = Got (cells, 0)"
    by (simp add: date_pass_def dates_def collect_dates_map_filter)
next
  assume "dates \<noteq> []"
  from most_common1_mode [OF this] obtain m
    where top: "most_common1 (Counter dates) = [(m, count_list dates m)]"
      and rest: "m \<in> set dates"
        "\<forall>k \<in> set dates. count_list dates k \<le> count_list dates m"
        "\<forall>k \<in> set dates. count_list dates k = count_list dates m \<longrightarrow>
            length (takeWhile (\<lambda>x. x \<noteq> m) dates) \<le> length (takeWhile (\<lambda>x. x \<noteq> k) dates)"
    by blast
  have "date_pass ym cells = Got (flag_outliers ym m cells 0)"
    using \<open>dates \<noteq> []\<close> top
    by (simp add: date_pass_def collect_dates_map_filter flip: dates_def)
  then have "date_pass ym cells =
      Got (map (\<lambda>c. case ym (cell_value c) of
                        None \<Rightarrow> c
                      | Some k \<Rightarrow> if k \<noteq> m then c\<lparr>yellow := True\<rparr> else c) cells,
           length (filter (\<lambda>c. case ym (cell_value c) of
                                  None \<Rightarrow> False
                                | Some k \<Rightarrow> k \<noteq> m) cells))"
    by (simp add: flag_outliers_map)
  with rest show "\<exists>mode_ym.
               date_pass ym cells =
                 Got (map (\<lambda>c. case ym (cell_value c) of
                                   None \<Rightarrow> c
                                 | Some k \<Rightarrow> if k \<noteq> mode_ym then c\<lparr>yellow := True\<rparr> else c)
                          cells,
                      length (filter (\<lambda>c. case ym (cell_value c) of
                                             None \<Rightarrow> False
                                           | Some k \<Rightarrow> k \<noteq> mode_ym) cells)) \<and>
               mode_ym \<in> set dates \<and>
               (\<forall>k \<in> set dates. count_list dates k \<le> count_list dates mode_ym) \<and>
               (\<forall>k \<in> set dates. count_list dates k = count_list dates mode_ym \<longrightarrow>
                  length (takeWhile (\<lambda>x. x \<noteq> mode_ym) dates) \<le>
                  length (takeWhile (\<lambda>x. x \<noteq> k) dates))"
    by blast
qed

text \<open>
  C6. The claim: a value that cannot be parsed as a date takes no part in the consensus
  and is never flagged. The code leaves out the values whose \<open>try\<close> block raises, and
  no other. For an empty cell the library returns \<open>NaT\<close> without raising, and the pair
  read from it is \<open>(nan, nan)\<close>: beside two dates of January 2024 the empty cell votes
  and is flagged and counted as the outlier.
\<close>

theorem date_pass_counts_empty_cell:
  assumes "ym XNone = Some NaN_period"
    and "ym (XText ''01/02/2024'') = Some (Period 2024 1)"
    and "ym (XText ''01/09/2024'') = Some (Period 2024 1)"
  shows "collect_dates ym
           [plain_cell (XText ''01/02/2024''), plain_cell (XText ''01/09/2024''), plain_cell XNone] =
           [Period 2024 1, Period 2024 1, NaN_period] \<and>
         date_pass ym
           [plain_cell (XText ''01/02/2024''), plain_cell (XText ''01/09/2024''), plain_cell XNone] =
           Got ([plain_cell (XText ''01/02/2024''), plain_cell (XText ''01/09/2024''),
                 \<lparr>cell_value = XNone, yellow = True\<rparr>], 1)"
  using assms
  by (simp add: date_pass_def Counter_def most_common1_def plain_cell_def)

theorem date_pass_counts_empty_cell_witness:
  "date_pass ym_example
     [plain_cell (XText ''01/02/2024''), plain_cell (XText ''01/09/2024''), plain_cell XNone] =
     Got ([plain_cell (XText ''01/02/2024''), plain_cell (XText ''01/09/2024''),
           \<lparr>cell_value = XNone, yellow = True\<rparr>], 1)"
proof -
  have a: "ym_example XNone = Some NaN_period"
    by (simp add: ym_example_def)
  have b: "ym_example (XText ''01/02/2024'') = Some (Period 2024 1)"
    by (simp add: ym_example_def)
  have c: "ym_example (XText ''01/09/2024'') = Some (Period 2024 1)"
    by (simp add: ym_example_def)
  from date_pass_counts_empty_cell [OF a b c] show ?thesis
    by (rule conjunct2)
qed

end
